theory Spec2Isabelle
  imports Complex_Main "HOL-Library.Word" "HOL-Library.Product_Lexorder"
begin

unbundle bit_operations_syntax

section \<open>Descriptor data model\<close>

text \<open>
  The enumerations of \<^verbatim>\<open>segy.schema\<close>. \<^verbatim>\<open>SegyStandard\<close> is the enum of
  \<^verbatim>\<open>segy/schema/segy.py\<close>; the members of the other three are the ones the
  standards module and the indexers name.
\<close>

datatype SegyStandard = REV0 | REV1 | REV2 | REV21 | CUSTOM

text \<open>
  Modelled from the spec: the \<^verbatim>\<open>ScalarType\<close> catalogue of \<^verbatim>\<open>segy/schema/data_type.py\<close>,
  which is not among the sources. Its members and widths are those of the data model
  section: int8 .. uint64, float32, float64 and ibm32 (width 4).
\<close>

datatype ScalarType =
  IBM32 | INT64 | INT32 | INT16 | INT8 | UINT64 | UINT32 | UINT16 | UINT8 | FLOAT64 | FLOAT32

fun scalar_width :: "ScalarType \<Rightarrow> nat" where
  "scalar_width IBM32 = 4"
| "scalar_width INT64 = 8"
| "scalar_width INT32 = 4"
| "scalar_width INT16 = 2"
| "scalar_width INT8 = 1"
| "scalar_width UINT64 = 8"
| "scalar_width UINT32 = 4"
| "scalar_width UINT16 = 2"
| "scalar_width UINT8 = 1"
| "scalar_width FLOAT64 = 8"
| "scalar_width FLOAT32 = 4"

datatype Endianness = BIG | LITTLE | NATIVE

datatype TextHeaderEncoding = ASCII | EBCDIC

text \<open>
  The descriptor classes, with the attributes their constructor calls in
  \<^verbatim>\<open>segy/standards/rev0.py\<close> pass and the ones \<^verbatim>\<open>segy/indexing.py\<close> reads.
  Record selectors are global in HOL, so each attribute carries the class as a prefix.
\<close>

record StructuredFieldDescriptor =
  field_name :: string
  field_offset :: nat
  field_format :: ScalarType
  field_endianness :: Endianness
  field_description :: "string option"

record StructuredDataTypeDescriptor =
  struct_fields :: "StructuredFieldDescriptor list"
  struct_item_size :: "nat option"
  struct_offset :: "nat option"

record TextHeaderDescriptor =
  text_rows :: nat
  text_cols :: nat
  text_offset :: "nat option"
  text_encoding :: TextHeaderEncoding
  text_format :: ScalarType

record TraceDataDescriptor =
  data_format :: ScalarType
  data_endianness :: Endianness
  data_samples :: "nat option"

record TraceDescriptor =
  header_descriptor :: StructuredDataTypeDescriptor
  data_descriptor :: TraceDataDescriptor
  trace_offset :: "nat option"

record SegyDescriptor =
  segy_standard :: SegyStandard
  text_file_header :: TextHeaderDescriptor
  binary_file_header :: StructuredDataTypeDescriptor
  extended_text_header :: "TextHeaderDescriptor option"
  trace :: TraceDescriptor

text \<open>
  One constructor call \<^verbatim>\<open>StructuredFieldDescriptor(name=, offset=, format=, endianness=,
  description=)\<close> of the module.
\<close>

definition field ::
  "string \<Rightarrow> nat \<Rightarrow> ScalarType \<Rightarrow> Endianness \<Rightarrow> string \<Rightarrow> StructuredFieldDescriptor" where
  "field n off fmt en d =
     \<lparr>field_name = n, field_offset = off, field_format = fmt, field_endianness = en,
      field_description = Some d\<rparr>"


section \<open>The Rev0 standard (segy/standards/rev0.py)\<close>

definition BINARY_FILE_HEADER_FIELDS_REV0 :: "StructuredFieldDescriptor list" where
  "BINARY_FILE_HEADER_FIELDS_REV0 = [
    field ''job_id'' 0 INT32 BIG ''Job Identification Number'',
    field ''line_no'' 4 INT32 BIG ''Line Number'',
    field ''reel_no'' 8 INT32 BIG ''Reel Number'',
    field ''data_traces_ensemble'' 12 INT16 BIG ''Number of Data Traces per Ensemble'',
    field ''aux_traces_ensemble'' 14 INT16 BIG ''Number of Auxiliary Traces per Ensemble'',
    field ''sample_interval'' 16 INT16 BIG ''Sample Interval'',
    field ''sample_interval_orig'' 18 INT16 BIG ''Sample Interval of Original Field Recording'',
    field ''samples_per_trace'' 20 INT16 BIG ''Number of Samples per Data Trace'',
    field ''samples_per_trace_orig'' 22 INT16 BIG ''Number of Samples per Data Trace for Original Field Recording'',
    field ''data_sample_format'' 24 INT16 BIG ''Data Sample Format Code'',
    field ''ensemble_fold'' 26 INT16 BIG ''Ensemble Fold'',
    field ''trace_sorting'' 28 INT16 BIG ''Trace Sorting Code'',
    field ''vertical_sum'' 30 INT16 BIG ''Vertical Sum Code'',
    field ''sweep_freq_start'' 32 INT16 BIG ''Sweep Frequency at Start'',
    field ''sweep_freq_end'' 34 INT16 BIG ''Sweep Frequency at End'',
    field ''sweep_length'' 36 INT16 BIG ''Sweep Length'',
    field ''sweep_type'' 38 INT16 BIG ''Sweep Type Code'',
    field ''sweep_trace_no'' 40 INT16 BIG ''Trace Number of Sweep Channel'',
    field ''sweep_taper_start'' 42 INT16 BIG ''Sweep Trace Taper Length at Start'',
    field ''sweep_taper_end'' 44 INT16 BIG ''Sweep Trace Taper Length at End'',
    field ''taper_type'' 46 INT16 BIG ''Taper Type'',
    field ''correlated_traces'' 48 INT16 BIG ''Correlated Data Traces'',
    field ''binary_gain'' 50 INT16 BIG ''Binary Gain Recovered'',
    field ''amp_recovery_method'' 52 INT16 BIG ''Amplitude Recovery Method'',
    field ''measurement_system'' 54 INT16 BIG ''Measurement System'',
    field ''impulse_signal_polarity'' 56 INT16 BIG ''Impulse Signal Polarity'',
    field ''vibratory_polarity'' 58 INT16 BIG ''Vibratory Polarity Code'']"

definition TRACE_HEADER_FIELDS_REV0 :: "StructuredFieldDescriptor list" where
  "TRACE_HEADER_FIELDS_REV0 = [
    field ''trace_seq_line'' 0 INT32 BIG ''Trace Sequence Number within Line'',
    field ''trace_seq_file'' 4 INT32 BIG ''Trace Sequence Number within File'',
    field ''field_rec_no'' 8 INT32 BIG ''Original Field Record Number'',
    field ''trace_no_field_rec'' 12 INT32 BIG ''Trace Number within the Field Record'',
    field ''energy_src_pt'' 16 INT32 BIG ''Energy Source Point Number'',
    field ''cdp_ens_no'' 20 INT32 BIG ''Ensemble Number (CDP, CMP, etc.)'',
    field ''trace_no_ens'' 24 INT32 BIG ''Trace Number within the Ensemble'',
    field ''trace_id'' 28 INT16 BIG ''Trace Identification Code'',
    field ''vert_sum'' 30 INT16 BIG ''Number of Vertically Stacked Traces'',
    field ''horiz_stack'' 32 INT16 BIG ''Number of Horizontally Stacked Traces'',
    field ''data_use'' 34 INT16 BIG ''Data Use'',
    field ''dist_src_to_rec'' 36 INT32 BIG ''Distance from Source Point to Receiver Group'',
    field ''rec_elev'' 40 INT32 BIG ''Receiver Group Elevation'',
    field ''src_elev'' 44 INT32 BIG ''Source Elevation'',
    field ''src_depth'' 48 INT32 BIG ''Source Depth'',
    field ''datum_elev_rec'' 52 INT32 BIG ''Datum Elevation at Receiver Group'',
    field ''datum_elev_src'' 56 INT32 BIG ''Datum Elevation at Source'',
    field ''water_depth_src'' 60 INT32 BIG ''Water Depth at Source'',
    field ''water_depth_rec'' 64 INT32 BIG ''Water Depth at Receiver Group'',
    field ''scalar_apply_elev'' 68 INT16 BIG ''Scalar to be applied to all elevations and depths'',
    field ''scalar_apply_coords'' 70 INT16 BIG ''Scalar to be applied to all coordinates'',
    field ''src_x'' 72 INT32 BIG ''Source X coordinate'',
    field ''src_y'' 76 INT32 BIG ''Source Y coordinate'',
    field ''rec_x'' 80 INT32 BIG ''Receiver X coordinate'',
    field ''rec_y'' 84 INT32 BIG ''Receiver Y coordinate'',
    field ''coord_units'' 88 INT16 BIG ''Coordinate units'',
    field ''weathering_vel'' 90 INT16 BIG ''Weathering Velocity'',
    field ''subweathering_vel'' 92 INT16 BIG ''Subweathering Velocity'',
    field ''uphole_time_src'' 94 INT16 BIG ''Uphole Time at Source'',
    field ''uphole_time_rec'' 96 INT16 BIG ''Uphole Time at Receiver'',
    field ''src_static_corr'' 98 INT16 BIG ''Source Static Correction'',
    field ''rec_static_corr'' 100 INT16 BIG ''Receiver Static Correction'',
    field ''total_static'' 102 INT16 BIG ''Total Static Applied'',
    field ''lag_time_a'' 104 INT16 BIG ''Lag Time A'',
    field ''lag_time_b'' 106 INT16 BIG ''Lag Time B'',
    field ''delay_rec_time'' 108 INT16 BIG ''Delay Recording Time'',
    field ''mute_start'' 110 INT16 BIG ''Start Time of Mute'',
    field ''mute_end'' 112 INT16 BIG ''End Time of Mute'',
    field ''samples_per_trace'' 114 INT16 BIG ''Number of Samples in this Trace'',
    field ''sample_interval'' 116 INT16 BIG ''Sample Interval for this Trace'',
    field ''gain_type'' 118 INT16 BIG ''Gain Type of Field Instruments'',
    field ''instrument_gain'' 120 INT16 BIG ''Instrument Gain Constant'',
    field ''instrument_early_gain'' 122 INT16 BIG ''Instrument Early Gain'',
    field ''correlated'' 124 INT16 BIG ''Correlated'',
    field ''sweep_freq_start'' 126 INT16 BIG ''Sweep Frequency at Start'',
    field ''sweep_freq_end'' 128 INT16 BIG ''Sweep Frequency at End'',
    field ''sweep_length'' 130 INT16 BIG ''Sweep Length'',
    field ''sweep_type'' 132 INT16 BIG ''Sweep Type'',
    field ''sweep_trace_taper_start'' 134 INT16 BIG ''Sweep Trace Taper Length at Start'',
    field ''sweep_trace_taper_end'' 136 INT16 BIG ''Sweep Trace Taper Length at End'',
    field ''taper_type'' 138 INT16 BIG ''Taper Type'',
    field ''alias_filter_freq'' 140 INT16 BIG ''Alias Filter Frequency'',
    field ''alias_filter_slope'' 142 INT16 BIG ''Alias Filter Slope'',
    field ''notch_filter_freq'' 144 INT16 BIG ''Notch Filter Frequency'',
    field ''notch_filter_slope'' 146 INT16 BIG ''Notch Filter Slope'',
    field ''low_cut_freq'' 148 INT16 BIG ''Low Cut Frequency'',
    field ''high_cut_freq'' 150 INT16 BIG ''High Cut Frequency'',
    field ''low_cut_slope'' 152 INT16 BIG ''Low Cut Slope'',
    field ''high_cut_slope'' 154 INT16 BIG ''High Cut Slope'',
    field ''year'' 156 INT16 BIG ''Year Data Recorded'',
    field ''day'' 158 INT16 BIG ''Day of Year'',
    field ''hour'' 160 INT16 BIG ''Hour of Day'',
    field ''minute'' 162 INT16 BIG ''Minute of Hour'',
    field ''second'' 164 INT16 BIG ''Second of Minute'',
    field ''time_basis_code'' 166 INT16 BIG ''Time Basis Code'',
    field ''trace_weighting_factor'' 168 INT16 BIG ''Trace Weighting Factor'',
    field ''geophone_group_no_roll1'' 170 INT16 BIG ''Geophone Group Number of Roll Switch Position One'',
    field ''geophone_group_no_first_trace'' 172 INT16 BIG ''Geophone Group Number of Trace Number One within Original Field Record'',
    field ''geophone_group_no_last_trace'' 174 INT16 BIG ''Geophone Group Number of Last Trace within Original Field Record'',
    field ''gap_size'' 176 INT16 BIG ''Gap Size (total number of groups dropped)'',
    field ''over_travel'' 178 INT16 BIG ''Over Travel Associated with Taper'']"

definition rev0_textual_file_header :: TextHeaderDescriptor where
  "rev0_textual_file_header =
     \<lparr>text_rows = 40, text_cols = 80, text_offset = Some 0, text_encoding = EBCDIC,
      text_format = UINT8\<rparr>"

definition rev0_binary_file_header :: StructuredDataTypeDescriptor where
  "rev0_binary_file_header =
     \<lparr>struct_fields = BINARY_FILE_HEADER_FIELDS_REV0, struct_item_size = Some 400,
      struct_offset = Some 3200\<rparr>"

definition rev0_trace_header :: StructuredDataTypeDescriptor where
  "rev0_trace_header =
     \<lparr>struct_fields = TRACE_HEADER_FIELDS_REV0, struct_item_size = Some 240,
      struct_offset = None\<rparr>"

definition rev0_trace_data :: TraceDataDescriptor where
  "rev0_trace_data = \<lparr>data_format = IBM32, data_endianness = BIG, data_samples = None\<rparr>"

definition rev0_trace :: TraceDescriptor where
  "rev0_trace =
     \<lparr>header_descriptor = rev0_trace_header, data_descriptor = rev0_trace_data,
      trace_offset = None\<rparr>"

definition rev0_segy :: SegyDescriptor where
  "rev0_segy =
     \<lparr>segy_standard = REV0, text_file_header = rev0_textual_file_header,
      binary_file_header = rev0_binary_file_header, extended_text_header = None,
      trace = rev0_trace\<rparr>"

text \<open>
  The layout of a field list as (offset, width) pairs, and the layout of a run of fields
  lying back to back from a given byte.
\<close>

definition field_layout :: "StructuredFieldDescriptor list \<Rightarrow> (nat \<times> nat) list" where
  "field_layout fs = map (\<lambda>f. (field_offset f, scalar_width (field_format f))) fs"

fun packed_from :: "nat \<Rightarrow> nat list \<Rightarrow> (nat \<times> nat) list" where
  "packed_from off [] = []"
| "packed_from off (w # ws) = (off, w) # packed_from (off + w) ws"

definition fields_named :: "string \<Rightarrow> StructuredDataTypeDescriptor \<Rightarrow> StructuredFieldDescriptor list" where
  "fields_named n d = filter (\<lambda>f. field_name f = n) (struct_fields d)"

text \<open>
  The field widths of the SEG-Y rev 0 layout, in order. Binary file header: three four-byte
  fields and 24 two-byte fields, bytes 3201 to 3260 of the file, the rest of the 400
  bytes unassigned. Trace header: 7 four-byte, 4 two-byte, 8 four-byte, 2 two-byte,
  4 four-byte and 46 two-byte fields, bytes 1 to 180 of the header, the rest of the 240
  bytes unassigned.
\<close>

definition rev0_binary_widths :: "nat list" where
  "rev0_binary_widths = replicate 3 4 @ replicate 24 2"

definition rev0_trace_widths :: "nat list" where
  "rev0_trace_widths =
     replicate 7 4 @ replicate 4 2 @ replicate 8 4 @ replicate 2 2 @ replicate 4 4 @ replicate 46 2"


section \<open>Indexers (segy/indexing.py)\<close>

type_synonym byte = "8 word"

text \<open>The exceptions the module and its collaborators raise, each with its message.\<close>

datatype error =
    IndexError string
  | ValueError string
  | TypeError string
  | AttributeError string
  | FileNotFoundError string
  | NotImplementedError string

subsection \<open>Formatting of integers in messages\<close>

text \<open>Python's \<^verbatim>\<open>str\<close> of an integer and of a list of integers, as an f-string renders them.\<close>

fun str_nat :: "nat \<Rightarrow> string" where
  "str_nat n =
     (if n < 10 then [''0123456789'' ! n]
      else str_nat (n div 10) @ [''0123456789'' ! (n mod 10)])"

definition str_int :: "int \<Rightarrow> string" where
  "str_int i = (if i < 0 then ''-'' @ str_nat (nat (- i)) else str_nat (nat i))"

fun join_strs :: "string \<Rightarrow> string list \<Rightarrow> string" where
  "join_strs sep [] = []"
| "join_strs sep [x] = x"
| "join_strs sep (x # y # ys) = x @ sep @ join_strs sep (y # ys)"

definition str_int_list :: "int list \<Rightarrow> string" where
  "str_int_list xs = ''['' @ join_strs '', '' (map str_int xs) @ '']''"

subsection \<open>bounds_check\<close>

text \<open>The parameters \<^verbatim>\<open>max_\<close> and \<^verbatim>\<open>type_\<close> of the source are \<open>max_value\<close> and \<open>type_name\<close> here.\<close>

definition bounds_check :: "int list \<Rightarrow> int \<Rightarrow> string \<Rightarrow> error + unit" where
  "bounds_check indices max_value type_name =
     (let negative_indices = filter (\<lambda>index. index < 0) indices;
          out_of_range_indices = filter (\<lambda>index. index \<ge> max_value) indices;
          outliers = negative_indices @ out_of_range_indices
      in if outliers \<noteq> [] then
           Inl (IndexError
             (''Requested '' @ type_name @ '' indices '' @ str_int_list outliers
              @ '' are out of bounds. SEG-Y file has '' @ str_int max_value
              @ '' traces. Valid indices are [0, '' @ str_int (max_value - 1) @ '').''))
         else Inr ())"

subsection \<open>The byte-range transport and merge_cat_file\<close>

text \<open>
  The file system holds the files by URL and, to make its use observable, the log of every
  byte range requested from it so far.
\<close>

record FileSystem =
  fs_files :: "(string \<times> byte list) list"
  fs_log :: "(string \<times> int \<times> int) list"

text \<open>
  Modelled from the spec: the range-fetch collaborator (fsspec's \<^verbatim>\<open>cat_ranges\<close>, which is
  not among the sources). Each requested range \<open>[start, end)\<close> yields the bytes of the file at
  those positions, one byte string per range, in request order. The indexers only request
  ranges with \<open>0 \<le> start \<le> end\<close>.
\<close>

definition byte_range :: "byte list \<Rightarrow> int \<Rightarrow> int \<Rightarrow> byte list" where
  "byte_range content start stop = take (nat (stop - start)) (drop (nat start) content)"

definition cat_ranges ::
  "FileSystem \<Rightarrow> string \<Rightarrow> int list \<Rightarrow> int list \<Rightarrow> (error + byte list list) \<times> FileSystem" where
  "cat_ranges fs url starts ends =
     (case map_of (fs_files fs) url of
        None \<Rightarrow> (Inl (FileNotFoundError url), fs)
      | Some content \<Rightarrow>
          (Inr (map (\<lambda>(s, e). byte_range content s e) (zip starts ends)),
           fs\<lparr>fs_log := fs_log fs @ map (\<lambda>(s, e). (url, s, e)) (zip starts ends)\<rparr>))"

text \<open>
  \<^verbatim>\<open>merge_offset_ranges\<close> is a function of the fsspec library, not of this repository; it
  is modelled from the library's documented behaviour for the call \<^verbatim>\<open>merge_cat_file\<close> makes:
  every path is the same URL, \<^verbatim>\<open>sort=True\<close>, \<^verbatim>\<open>max_block=block_size\<close>, and \<^verbatim>\<open>max_gap\<close> left at
  its default 0. Zero or one range is returned as it is. Otherwise the ranges are sorted
  (by start, then end) and traversed once; a range joins the block before it unless its
  start lies more than \<open>max_gap\<close> beyond the block's end or the joined block would exceed
  \<open>max_block\<close>; joining moves the block's end to the range's end.
\<close>

fun merge_blocks :: "int \<Rightarrow> int \<Rightarrow> int \<Rightarrow> int \<Rightarrow> (int \<times> int) list \<Rightarrow> (int \<times> int) list" where
  "merge_blocks max_gap max_block new_start new_end [] = [(new_start, new_end)]"
| "merge_blocks max_gap max_block new_start new_end ((s, e) # rest) =
     (if s - new_end > max_gap \<or> e - new_start > max_block
      then (new_start, new_end) # merge_blocks max_gap max_block s e rest
      else merge_blocks max_gap max_block new_start e rest)"

definition merge_offset_ranges ::
  "int list \<Rightarrow> int list \<Rightarrow> int \<Rightarrow> error + (int list \<times> int list)" where
  "merge_offset_ranges starts ends max_block =
     (if length ends \<noteq> length starts then Inl (ValueError [])
      else if length starts \<le> 1 then Inr (starts, ends)
      else (case sort (zip starts ends) of
              [] \<Rightarrow> Inr (starts, ends)
            | (s, e) # rest \<Rightarrow>
                (let merged = merge_blocks 0 max_block s e rest
                 in Inr (map fst merged, map snd merged))))"

definition default_block_size :: int where
  "default_block_size = 8388608"

definition merge_cat_file ::
  "FileSystem \<Rightarrow> string \<Rightarrow> int list \<Rightarrow> int list \<Rightarrow> int \<Rightarrow> (error + byte list) \<times> FileSystem" where
  "merge_cat_file fs url starts ends block_size =
     (case merge_offset_ranges starts ends block_size of
        Inl err \<Rightarrow> (Inl err, fs)
      | Inr (starts', ends') \<Rightarrow>
          (case cat_ranges fs url starts' ends' of
             (Inl err, fs') \<Rightarrow> (Inl err, fs')
           | (Inr buffer_bytes, fs') \<Rightarrow> (Inr (concat buffer_bytes), fs')))"


subsection \<open>Typed buffers\<close>

text \<open>
  The numpy side of the module: a record type (\<^verbatim>\<open>dtype\<close>) and an array as its type, its
  shape and its bytes. A data dtype is the sub-array \<^verbatim>\<open>(format, (samples,))\<close>, a header dtype
  a list of named fields at fixed offsets within an item size, a trace dtype the pair
  \<^verbatim>\<open>[("header", header_dtype), ("data", data_dtype)]\<close>. The host is little-endian.
\<close>

datatype byteorder = LittleEndian | BigEndian

definition native :: byteorder where
  "native = LittleEndian"

datatype dtype =
    DataDtype ScalarType byteorder nat
  | HeaderDtype "(string \<times> nat \<times> ScalarType \<times> byteorder) list" nat
  | TraceDtype dtype dtype

record ndarray =
  nd_dtype :: dtype
  nd_shape :: "nat list"
  nd_buffer :: "byte list"

fun itemsize :: "dtype \<Rightarrow> nat" where
  "itemsize (DataDtype fmt order samples) = samples * scalar_width fmt"
| "itemsize (HeaderDtype flds item_size) = item_size"
| "itemsize (TraceDtype header_dtype data_dtype) = itemsize header_dtype + itemsize data_dtype"

definition chunks :: "nat \<Rightarrow> 'a list \<Rightarrow> 'a list list" where
  "chunks n xs = map (\<lambda>k. take n (drop (k * n) xs)) [0..<length xs div n]"

text \<open>\<^verbatim>\<open>np.frombuffer(buffer, dtype)\<close>: a sub-array dtype adds its length to the shape.\<close>

definition frombuffer :: "byte list \<Rightarrow> dtype \<Rightarrow> error + ndarray" where
  "frombuffer buffer dt =
     (if itemsize dt = 0 then Inl (ValueError ''itemsize cannot be zero in type'')
      else if length buffer mod itemsize dt \<noteq> 0
        then Inl (ValueError ''buffer size must be a multiple of element size'')
      else Inr \<lparr>nd_dtype = dt,
                nd_shape = (case dt of
                              DataDtype fmt order samples \<Rightarrow> [length buffer div itemsize dt, samples]
                            | _ \<Rightarrow> [length buffer div itemsize dt]),
                nd_buffer = buffer\<rparr>)"

text \<open>
  \<^verbatim>\<open>data.byteswap(inplace=True).newbyteorder()\<close>: the bytes of every scalar are reversed
  where they lie (bytes between the fields of a header stay), and the type then names the
  opposite byte order.
\<close>

definition swap_field :: "nat \<Rightarrow> nat \<Rightarrow> byte list \<Rightarrow> byte list" where
  "swap_field off w bs = take off bs @ rev (take w (drop off bs)) @ drop (off + w) bs"

fun byteswap_item :: "dtype \<Rightarrow> byte list \<Rightarrow> byte list" where
  "byteswap_item (DataDtype fmt order samples) bs = concat (map rev (chunks (scalar_width fmt) bs))"
| "byteswap_item (HeaderDtype flds item_size) bs =
     fold (\<lambda>(name, off, fmt, order). swap_field off (scalar_width fmt)) flds bs"
| "byteswap_item (TraceDtype header_dtype data_dtype) bs =
     byteswap_item header_dtype (take (itemsize header_dtype) bs)
     @ byteswap_item data_dtype (drop (itemsize header_dtype) bs)"

fun flip :: "byteorder \<Rightarrow> byteorder" where
  "flip LittleEndian = BigEndian"
| "flip BigEndian = LittleEndian"

fun newbyteorder :: "dtype \<Rightarrow> dtype" where
  "newbyteorder (DataDtype fmt order samples) = DataDtype fmt (flip order) samples"
| "newbyteorder (HeaderDtype flds item_size) =
     HeaderDtype (map (\<lambda>(name, off, fmt, order). (name, off, fmt, flip order)) flds) item_size"
| "newbyteorder (TraceDtype header_dtype data_dtype) =
     TraceDtype (newbyteorder header_dtype) (newbyteorder data_dtype)"

definition byteswap_newbyteorder :: "ndarray \<Rightarrow> ndarray" where
  "byteswap_newbyteorder data =
     data\<lparr>nd_buffer := concat (map (byteswap_item (nd_dtype data))
                                  (chunks (itemsize (nd_dtype data)) (nd_buffer data))),
          nd_dtype := newbyteorder (nd_dtype data)\<rparr>"

text \<open>\<^verbatim>\<open>.squeeze()\<close> removes every axis of length one.\<close>

definition squeeze :: "ndarray \<Rightarrow> ndarray" where
  "squeeze data = data\<lparr>nd_shape := filter (\<lambda>d. d \<noteq> 1) (nd_shape data)\<rparr>"

subsection \<open>IBM to IEEE conversion\<close>

text \<open>A 32-bit word as four bytes in a byte order, and back.\<close>

definition word_of_bytes :: "byteorder \<Rightarrow> byte list \<Rightarrow> 32 word" where
  "word_of_bytes order bs =
     foldl (\<lambda>acc b. push_bit 8 acc OR ucast b) 0
       (case order of BigEndian \<Rightarrow> bs | LittleEndian \<Rightarrow> rev bs)"

definition bytes_of_word :: "byteorder \<Rightarrow> 32 word \<Rightarrow> byte list" where
  "bytes_of_word order w =
     (let be = [ucast (drop_bit 24 w), ucast (drop_bit 16 w), ucast (drop_bit 8 w), ucast w]
      in case order of BigEndian \<Rightarrow> be | LittleEndian \<Rightarrow> rev be)"

text \<open>
  Modelled from the spec: \<^verbatim>\<open>segy.ibm.ibm2ieee\<close>, which is not among the sources, on one
  32-bit IBM word, giving the bits of the IEEE-754 binary32 result. Sign, excess-64 base-16
  exponent and 24-bit fraction are taken apart; a zero fraction gives a signed zero;
  otherwise the value is \<open>(-1)^sign * fraction * 16^(exponent - 64) * 2^-24\<close> and its bit
  pattern is assembled from the highest set bit of the fraction, with the IEEE exponent
  \<open>(exponent - 64) * 4 - (24 - (hi_bit + 1)) + 127 - 1\<close>. A result beyond the binary32 range
  saturates to infinity. Where the IEEE exponent is not positive the value lies below the
  normal range: the 24-bit significand is shifted down into a subnormal, rounded to the
  nearest representable value (ties to even, the IEEE default), which is a signed zero
  once the value is below the representable range.
\<close>

primrec highest_bit :: "nat \<Rightarrow> 32 word \<Rightarrow> nat" where
  "highest_bit 0 w = 0"
| "highest_bit (Suc k) w = (if bit w (Suc k) then Suc k else highest_bit k w)"

definition round_shift :: "nat \<Rightarrow> nat \<Rightarrow> nat" where
  "round_shift significand n =
     (let q = significand div 2 ^ n;
          r = significand mod 2 ^ n;
          half = 2 ^ (n - 1)
      in if r > half \<or> (r = half \<and> odd q) then q + 1 else q)"

definition ibm2ieee :: "32 word \<Rightarrow> 32 word" where
  "ibm2ieee W =
     (let sign = drop_bit 31 W AND 1;
          exponent = drop_bit 24 W AND 0x7F;
          fraction = W AND 0x00FFFFFF
      in if fraction = 0 then push_bit 31 sign
         else
           (let hi_bit = highest_bit 23 fraction;
                ieee_exponent = (int (unat exponent) - 64) * 4 - (24 - (int hi_bit + 1)) + 127 - 1;
                significand = push_bit (23 - hi_bit) fraction;
                mantissa = significand AND 0x007FFFFF
            in if ieee_exponent \<ge> 255 then push_bit 31 sign OR 0x7F800000
               else if ieee_exponent \<le> 0
                 then push_bit 31 sign
                      OR word_of_nat (round_shift (unat significand) (nat (1 - ieee_exponent)))
               else push_bit 31 sign OR push_bit 23 (word_of_int ieee_exponent) OR mantissa))"

text \<open>
  \<^verbatim>\<open>ibm2ieee(data).view("float32")\<close> on a data array: every word is read in the array's byte
  order and the result is a new float32 array in native order.
\<close>

definition ibm2ieee_array :: "ndarray \<Rightarrow> ndarray" where
  "ibm2ieee_array data =
     (case nd_dtype data of
        DataDtype fmt order samples \<Rightarrow>
          \<lparr>nd_dtype = DataDtype FLOAT32 native samples,
           nd_shape = nd_shape data,
           nd_buffer = concat (map (\<lambda>w. bytes_of_word native (ibm2ieee (word_of_bytes order w)))
                                 (chunks 4 (nd_buffer data)))\<rparr>
      | _ \<Rightarrow> data)"

text \<open>
  \<^verbatim>\<open>trace_ibm2ieee_inplace\<close>. The assignment \<^verbatim>\<open>trace["data"] = ibm2ieee(trace["data"]).view("uint32")\<close>
  writes, in every record, the converted words over the data block in the block's byte
  order; the result is the same buffer under the dtype whose data field is float32. The
  function is called on a trace dtype with four-byte samples; on any other dtype the
  array is returned as it is.
\<close>

definition convert_data_block :: "byteorder \<Rightarrow> byte list \<Rightarrow> byte list" where
  "convert_data_block order bs =
     concat (map (\<lambda>w. bytes_of_word order (ibm2ieee (word_of_bytes order w))) (chunks 4 bs))"

definition trace_ibm2ieee_inplace :: "ndarray \<Rightarrow> ndarray" where
  "trace_ibm2ieee_inplace trace_array =
     (case nd_dtype trace_array of
        TraceDtype header_dtype (DataDtype fmt order num_samp) \<Rightarrow>
          (let data_dtype_f32 = DataDtype FLOAT32 native num_samp;
               trace_dtype_fp32 = TraceDtype header_dtype data_dtype_f32
           in \<lparr>nd_dtype = trace_dtype_fp32,
               nd_shape = nd_shape trace_array,
               nd_buffer =
                 concat (map (\<lambda>r. take (itemsize header_dtype) r
                                    @ convert_data_block order (drop (itemsize header_dtype) r))
                           (chunks (itemsize (nd_dtype trace_array)) (nd_buffer trace_array)))\<rparr>)
      | _ \<Rightarrow> trace_array)"


subsection \<open>The indexer classes\<close>

text \<open>
  The trace descriptor as an indexer reads it: the offset of the first trace, the header
  descriptor with its item size, and the format, byte order and sample count of the data,
  all set (the file facade sets offset and samples when it opens a file).
\<close>

record TraceSpec =
  spec_offset :: nat
  spec_header_fields :: "StructuredFieldDescriptor list"
  spec_header_item_size :: nat
  spec_format :: ScalarType
  spec_endianness :: Endianness
  spec_samples :: nat

definition trace_spec :: "TraceDescriptor \<Rightarrow> TraceSpec option" where
  "trace_spec d =
     (case (trace_offset d, struct_item_size (header_descriptor d), data_samples (data_descriptor d)) of
        (Some off, Some item_size, Some samples) \<Rightarrow>
          Some \<lparr>spec_offset = off,
                spec_header_fields = struct_fields (header_descriptor d),
                spec_header_item_size = item_size,
                spec_format = data_format (data_descriptor d),
                spec_endianness = data_endianness (data_descriptor d),
                spec_samples = samples\<rparr>
      | _ \<Rightarrow> None)"

text \<open>
  Modelled from the spec: the \<^verbatim>\<open>dtype\<close> properties of the descriptor classes of
  \<^verbatim>\<open>segy/schema\<close>, which are not among the sources. The compiled trace record is the header
  (\<open>item_size\<close> bytes) followed by the data (\<open>samples * width\<close> bytes); every field keeps
  its offset, format and byte order.
\<close>

fun order_of :: "Endianness \<Rightarrow> byteorder" where
  "order_of BIG = BigEndian"
| "order_of LITTLE = LittleEndian"
| "order_of NATIVE = native"

definition header_dtype :: "TraceSpec \<Rightarrow> dtype" where
  "header_dtype spec =
     HeaderDtype
       (map (\<lambda>f. (field_name f, field_offset f, field_format f, order_of (field_endianness f)))
          (spec_header_fields spec))
       (spec_header_item_size spec)"

definition data_dtype :: "TraceSpec \<Rightarrow> dtype" where
  "data_dtype spec = DataDtype (spec_format spec) (order_of (spec_endianness spec)) (spec_samples spec)"

definition trace_dtype :: "TraceSpec \<Rightarrow> dtype" where
  "trace_dtype spec = TraceDtype (header_dtype spec) (data_dtype spec)"

datatype IndexerClass = TraceIndexer | HeaderIndexer | DataIndexer

record Indexer =
  idx_class :: IndexerClass
  idx_url :: string
  idx_spec :: TraceSpec
  idx_max_value :: int
  idx_kind :: string
  idx_postprocess_kwargs :: "(string \<times> bool) list option"

fun indices_to_byte_ranges :: "IndexerClass \<Rightarrow> TraceSpec \<Rightarrow> int list \<Rightarrow> int list \<times> int list" where
  "indices_to_byte_ranges TraceIndexer spec indices =
     (let start_offset = int (spec_offset spec);
          trace_itemsize = int (itemsize (trace_dtype spec));
          starts = map (\<lambda>i. start_offset + i * trace_itemsize) indices;
          ends = map (\<lambda>start. start + trace_itemsize) starts
      in (starts, ends))"
| "indices_to_byte_ranges HeaderIndexer spec indices =
     (let trace_itemsize = int (itemsize (trace_dtype spec));
          header_itemsize = int (itemsize (header_dtype spec));
          start_offset = int (spec_offset spec);
          starts = map (\<lambda>i. start_offset + i * trace_itemsize) indices;
          ends = map (\<lambda>start. start + header_itemsize) starts
      in (starts, ends))"
| "indices_to_byte_ranges DataIndexer spec indices =
     (let trace_itemsize = int (itemsize (trace_dtype spec));
          data_itemsize = int (itemsize (data_dtype spec));
          header_itemsize = int (itemsize (header_dtype spec));
          start_offset = int (spec_offset spec) + header_itemsize;
          starts = map (\<lambda>i. start_offset + i * trace_itemsize) indices;
          ends = map (\<lambda>start. start + data_itemsize) starts
      in (starts, ends))"

fun decode :: "IndexerClass \<Rightarrow> TraceSpec \<Rightarrow> byte list \<Rightarrow> error + ndarray" where
  "decode TraceIndexer spec buffer =
     (case frombuffer buffer (trace_dtype spec) of
        Inl err \<Rightarrow> Inl err
      | Inr data \<Rightarrow>
          (let data = byteswap_newbyteorder data
           in if spec_format spec = IBM32 then Inr (trace_ibm2ieee_inplace data) else Inr data))"
| "decode HeaderIndexer spec buffer =
     (case frombuffer buffer (header_dtype spec) of
        Inl err \<Rightarrow> Inl err
      | Inr data \<Rightarrow> Inr (byteswap_newbyteorder data))"
| "decode DataIndexer spec buffer =
     (case frombuffer buffer (data_dtype spec) of
        Inl err \<Rightarrow> Inl err
      | Inr data \<Rightarrow>
          (let data = byteswap_newbyteorder data
           in if spec_format spec = IBM32 then Inr (ibm2ieee_array data) else Inr data))"

definition fetch :: "Indexer \<Rightarrow> FileSystem \<Rightarrow> int list \<Rightarrow> (error + ndarray) \<times> FileSystem" where
  "fetch self fs indices =
     (let (starts, ends) = indices_to_byte_ranges (idx_class self) (idx_spec self) indices
      in case merge_cat_file fs (idx_url self) starts ends default_block_size of
           (Inl err, fs') \<Rightarrow> (Inl err, fs')
         | (Inr buffer, fs') \<Rightarrow>
             (case decode (idx_class self) (idx_spec self) buffer of
                Inl err \<Rightarrow> (Inl err, fs')
              | Inr data \<Rightarrow> (Inr (squeeze data), fs')))"

text \<open>
  What an indexing operation returns: an array, a table of headers
  (\<^verbatim>\<open>DataFrame(data)\<close>), or the dictionary \<^verbatim>\<open>{"header": DataFrame(data["header"]), "data": data["data"]}\<close>.
\<close>

datatype result = NDArray ndarray | DataFrame ndarray | HeaderAndData ndarray ndarray

definition get_header :: "ndarray \<Rightarrow> error + ndarray" where
  "get_header data =
     (case nd_dtype data of
        TraceDtype hdt ddt \<Rightarrow>
          Inr \<lparr>nd_dtype = hdt, nd_shape = nd_shape data,
               nd_buffer = concat (map (take (itemsize hdt))
                                     (chunks (itemsize (nd_dtype data)) (nd_buffer data)))\<rparr>
      | _ \<Rightarrow> Inl (ValueError ''no field of name header''))"

definition get_data :: "ndarray \<Rightarrow> error + ndarray" where
  "get_data data =
     (case nd_dtype data of
        TraceDtype hdt (DataDtype fmt order samples) \<Rightarrow>
          Inr \<lparr>nd_dtype = DataDtype fmt order samples, nd_shape = nd_shape data @ [samples],
               nd_buffer = concat (map (drop (itemsize hdt))
                                     (chunks (itemsize (nd_dtype data)) (nd_buffer data)))\<rparr>
      | _ \<Rightarrow> Inl (ValueError ''no field of name data''))"

definition using_pandas :: "(string \<times> bool) list option \<Rightarrow> error + bool" where
  "using_pandas kwargs =
     (case kwargs of
        None \<Rightarrow> Inl (AttributeError ''NoneType object has no attribute get'')
      | Some d \<Rightarrow> Inr (case map_of d ''pandas_headers'' of None \<Rightarrow> False | Some b \<Rightarrow> b))"

fun post_process :: "IndexerClass \<Rightarrow> (string \<times> bool) list option \<Rightarrow> ndarray \<Rightarrow> error + result" where
  "post_process TraceIndexer kwargs data =
     (case using_pandas kwargs of
        Inl err \<Rightarrow> Inl err
      | Inr True \<Rightarrow>
          (case get_header data of
             Inl err \<Rightarrow> Inl err
           | Inr h \<Rightarrow> (case get_data data of Inl err \<Rightarrow> Inl err | Inr d \<Rightarrow> Inr (HeaderAndData h d)))
      | Inr False \<Rightarrow> Inr (NDArray data))"
| "post_process HeaderIndexer kwargs data =
     (case using_pandas kwargs of
        Inl err \<Rightarrow> Inl err
      | Inr True \<Rightarrow> Inr (DataFrame data)
      | Inr False \<Rightarrow> Inr (NDArray data))"
| "post_process DataIndexer kwargs data = Inr (NDArray data)"

text \<open>
  The index argument: an int, a list of ints, a slice with its three optional parts, or a
  value of any other type, carried as the text \<^verbatim>\<open>type(item)\<close> prints.
\<close>

datatype item = IntItem int | ListItem "int list" | SliceItem "int option" "int option" "int option"
  | OtherItem string

text \<open>Python's \<^verbatim>\<open>x or default\<close> on an optional int: None and 0 both give the default.\<close>

definition py_or :: "int option \<Rightarrow> int \<Rightarrow> int" where
  "py_or x d = (case x of None \<Rightarrow> d | Some v \<Rightarrow> if v = 0 then d else v)"

text \<open>\<^verbatim>\<open>slice.indices(length)\<close> and \<^verbatim>\<open>list(range(start, stop, step))\<close> of the language.\<close>

definition slice_indices ::
  "int option \<Rightarrow> int option \<Rightarrow> int option \<Rightarrow> int \<Rightarrow> error + (int \<times> int \<times> int)" where
  "slice_indices start stop step len =
     (let step' = (case step of None \<Rightarrow> 1 | Some s \<Rightarrow> s)
      in if len < 0 then Inl (ValueError ''length should not be negative'')
         else if step' = 0 then Inl (ValueError ''slice step cannot be zero'')
         else
           (let lower = (if step' < 0 then - 1 else 0);
                upper = (if step' < 0 then len - 1 else len);
                start' = (case start of
                            None \<Rightarrow> (if step' < 0 then upper else lower)
                          | Some s \<Rightarrow> (if s < 0 then max (s + len) lower else min s upper));
                stop' = (case stop of
                           None \<Rightarrow> (if step' < 0 then lower else upper)
                         | Some s \<Rightarrow> (if s < 0 then max (s + len) lower else min s upper))
            in Inr (start', stop', step')))"

definition py_range :: "int \<Rightarrow> int \<Rightarrow> int \<Rightarrow> int list" where
  "py_range start stop step =
     (if step > 0 then map (\<lambda>k. start + int k * step) [0..<nat ((stop - start + step - 1) div step)]
      else if step < 0 then map (\<lambda>k. start + int k * step) [0..<nat ((start - stop - step - 1) div (- step))]
      else [])"

definition item_indices :: "Indexer \<Rightarrow> item \<Rightarrow> error + int list" where
  "item_indices self item =
     (case item of
        IntItem i \<Rightarrow>
          (case bounds_check [i] (idx_max_value self) (idx_kind self) of
             Inl err \<Rightarrow> Inl err | Inr _ \<Rightarrow> Inr [i])
      | ListItem indices \<Rightarrow>
          (case bounds_check indices (idx_max_value self) (idx_kind self) of
             Inl err \<Rightarrow> Inl err | Inr _ \<Rightarrow> Inr indices)
      | SliceItem item_start item_stop item_step \<Rightarrow>
          (if item_step = Some 0 then Inl (ValueError ''Step of 0 is invalid for slicing.'')
           else
             (let start = py_or item_start 0;
                  stop = py_or item_stop (idx_max_value self)
              in case bounds_check [start, stop - 1] (idx_max_value self) (idx_kind self) of
                   Inl err \<Rightarrow> Inl err
                 | Inr _ \<Rightarrow>
                     (case slice_indices item_start item_stop item_step (idx_max_value self) of
                        Inl err \<Rightarrow> Inl err
                      | Inr (a, b, c) \<Rightarrow> Inr (py_range a b c))))
      | OtherItem type_name \<Rightarrow> Inl (TypeError (''Invalid index type '' @ type_name)))"

text \<open>The last two statements of \<^verbatim>\<open>__getitem__\<close>: fetch the indices, post-process the data.\<close>

definition fetch_and_post_process ::
  "Indexer \<Rightarrow> FileSystem \<Rightarrow> int list \<Rightarrow> (error + result) \<times> FileSystem" where
  "fetch_and_post_process self fs indices =
     (case fetch self fs indices of
        (Inl err, fs') \<Rightarrow> (Inl err, fs')
      | (Inr data, fs') \<Rightarrow> (post_process (idx_class self) (idx_postprocess_kwargs self) data, fs'))"

definition getitem :: "Indexer \<Rightarrow> FileSystem \<Rightarrow> item \<Rightarrow> (error + result) \<times> FileSystem" where
  "getitem self fs item =
     (case item_indices self item of
        Inl err \<Rightarrow> (Inl err, fs)
      | Inr indices \<Rightarrow> fetch_and_post_process self fs indices)"


section \<open>Notions used to state the properties\<close>

text \<open>
  The trace record size (stride): header size plus data size.
\<close>

definition trace_stride :: "TraceSpec \<Rightarrow> int" where
  "trace_stride spec =
     int (spec_header_item_size spec) + int (spec_samples spec * scalar_width (spec_format spec))"

text \<open>
  The dtype each indexer class hands to \<^verbatim>\<open>np.frombuffer\<close>, the dtype and the inner axes of
  the array its \<^verbatim>\<open>decode\<close> returns, and what \<^verbatim>\<open>decode\<close> makes of the bytes of one record.
\<close>

fun region_dtype :: "IndexerClass \<Rightarrow> TraceSpec \<Rightarrow> dtype" where
  "region_dtype TraceIndexer spec = trace_dtype spec"
| "region_dtype HeaderIndexer spec = header_dtype spec"
| "region_dtype DataIndexer spec = data_dtype spec"

fun decoded_dtype :: "IndexerClass \<Rightarrow> TraceSpec \<Rightarrow> dtype" where
  "decoded_dtype TraceIndexer spec =
     (if spec_format spec = IBM32
      then TraceDtype (newbyteorder (header_dtype spec)) (DataDtype FLOAT32 native (spec_samples spec))
      else newbyteorder (trace_dtype spec))"
| "decoded_dtype HeaderIndexer spec = newbyteorder (header_dtype spec)"
| "decoded_dtype DataIndexer spec =
     (if spec_format spec = IBM32 then DataDtype FLOAT32 native (spec_samples spec)
      else newbyteorder (data_dtype spec))"

fun decoded_axes :: "IndexerClass \<Rightarrow> TraceSpec \<Rightarrow> nat list" where
  "decoded_axes DataIndexer spec = [spec_samples spec]"
| "decoded_axes cls spec = []"

fun decode_record :: "IndexerClass \<Rightarrow> TraceSpec \<Rightarrow> byte list \<Rightarrow> byte list" where
  "decode_record TraceIndexer spec r =
     (let b = byteswap_item (trace_dtype spec) r
      in if spec_format spec = IBM32
         then take (spec_header_item_size spec) b
              @ convert_data_block (flip (order_of (spec_endianness spec)))
                  (drop (spec_header_item_size spec) b)
         else b)"
| "decode_record HeaderIndexer spec r = byteswap_item (header_dtype spec) r"
| "decode_record DataIndexer spec r =
     (let b = byteswap_item (data_dtype spec) r
      in if spec_format spec = IBM32
         then concat (map (\<lambda>w. bytes_of_word native
                                  (ibm2ieee (word_of_bytes (flip (order_of (spec_endianness spec))) w)))
                        (chunks 4 b))
         else b)"

text \<open>Where the region of trace 0 starts for an indexer class.\<close>

fun region_offset :: "IndexerClass \<Rightarrow> TraceSpec \<Rightarrow> int" where
  "region_offset DataIndexer spec = int (spec_offset spec) + int (spec_header_item_size spec)"
| "region_offset cls spec = int (spec_offset spec)"

text \<open>
  The indexers whose post-processing hands the fetched array on as it is: the data-only
  indexer, and the other two when \<^verbatim>\<open>postprocess_kwargs\<close> is a dictionary in which
  \<^verbatim>\<open>pandas_headers\<close> is absent or false.
\<close>

definition returns_array :: "Indexer \<Rightarrow> bool" where
  "returns_array self =
     (idx_class self = DataIndexer \<or> using_pandas (idx_postprocess_kwargs self) = Inr False)"

text \<open>The bytes of the file that belong to trace \<open>i\<close> for an indexer class.\<close>

definition trace_region :: "IndexerClass \<Rightarrow> TraceSpec \<Rightarrow> byte list \<Rightarrow> int \<Rightarrow> byte list" where
  "trace_region cls spec content i =
     (case indices_to_byte_ranges cls spec [i] of
        ([s], [e]) \<Rightarrow> byte_range content s e
      | _ \<Rightarrow> [])"

text \<open>The \<open>k\<close>-th element of an array along its first axis.\<close>

definition nd_item :: "ndarray \<Rightarrow> nat \<Rightarrow> byte list" where
  "nd_item a k = take (itemsize (nd_dtype a)) (drop (k * itemsize (nd_dtype a)) (nd_buffer a))"

text \<open>A chain of byte ranges: each starts at or after the end of the one before it.\<close>

fun chained :: "int \<Rightarrow> (int \<times> int) list \<Rightarrow> bool" where
  "chained e [] = True"
| "chained e ((s, e') # rest) = (e \<le> s \<and> s \<le> e' \<and> chained e' rest)"

text \<open>
  The number a finite IEEE-754 binary32 bit pattern stands for: sign bit 31, biased
  exponent in bits 30 to 23, 23 mantissa bits (exponent 255, infinities and NaNs, is not
  covered).
\<close>

definition float32_value :: "32 word \<Rightarrow> real" where
  "float32_value w =
     (let e = unat (drop_bit 23 w AND 0xFF);
          m = real (unat (w AND 0x007FFFFF));
          magnitude = (if e = 0 then m / 2 ^ 149
                       else if e \<ge> 127 then (1 + m / 2 ^ 23) * 2 ^ (e - 127)
                       else (1 + m / 2 ^ 23) / 2 ^ (127 - e))
      in if bit w 31 then - magnitude else magnitude)"


section \<open>A small file and its indexers, for concrete evaluation\<close>

text \<open>
  Three traces of twelve bytes each after a four-byte preamble: an eight-byte header with
  an int16 at offset 0 and an int32 at offset 2, and one int32 sample. Byte \<open>n\<close> of the
  file has the value \<open>n\<close>.
\<close>

definition example_content :: "byte list" where
  "example_content =
     [0, 1, 2, 3, 4, 5, 6, 7, 8, 9, 10, 11, 12, 13, 14, 15, 16, 17, 18, 19,
      20, 21, 22, 23, 24, 25, 26, 27, 28, 29, 30, 31, 32, 33, 34, 35, 36, 37, 38, 39]"

definition example_spec :: TraceSpec where
  "example_spec =
     \<lparr>spec_offset = 4,
      spec_header_fields = [field ''a'' 0 INT16 BIG ''first'', field ''b'' 2 INT32 BIG ''second''],
      spec_header_item_size = 8,
      spec_format = INT32,
      spec_endianness = BIG,
      spec_samples = 1\<rparr>"

definition example_indexer :: "IndexerClass \<Rightarrow> Indexer" where
  "example_indexer cls =
     \<lparr>idx_class = cls, idx_url = ''file.sgy'', idx_spec = example_spec, idx_max_value = 3,
      idx_kind = ''trace'', idx_postprocess_kwargs = Some []\<rparr>"

definition example_fs :: FileSystem where
  "example_fs = \<lparr>fs_files = [(''file.sgy'', example_content)], fs_log = []\<rparr>"

text \<open>What a fetch returns, for statements about concrete inputs.\<close>

definition fetched :: "Indexer \<Rightarrow> FileSystem \<Rightarrow> int list \<Rightarrow> ndarray option" where
  "fetched self fs indices = (case fst (fetch self fs indices) of Inr a \<Rightarrow> Some a | Inl err \<Rightarrow> None)"

definition fetched_item :: "Indexer \<Rightarrow> FileSystem \<Rightarrow> int list \<Rightarrow> nat \<Rightarrow> byte list option" where
  "fetched_item self fs indices k = map_option (\<lambda>a. nd_item a k) (fetched self fs indices)"

definition fetched_buffer :: "Indexer \<Rightarrow> FileSystem \<Rightarrow> int list \<Rightarrow> byte list option" where
  "fetched_buffer self fs indices = map_option nd_buffer (fetched self fs indices)"

definition fetched_shape :: "Indexer \<Rightarrow> FileSystem \<Rightarrow> int list \<Rightarrow> nat list option" where
  "fetched_shape self fs indices = map_option nd_shape (fetched self fs indices)"

text \<open>
  An array of two trace records after the byte swap: a two-byte header and one IBM sample
  each, stored little-endian (the words \<open>0x41100000\<close> and \<open>0xC2080000\<close>).
\<close>

definition example_ibm_trace :: ndarray where
  "example_ibm_trace =
     \<lparr>nd_dtype = TraceDtype (HeaderDtype [(''a'', 0, INT16, LittleEndian)] 2)
                            (DataDtype IBM32 LittleEndian 1),
      nd_shape = [2],
      nd_buffer = [1, 2, 0, 0, 0x10, 0x41, 3, 4, 0, 0, 0x08, 0xC2]\<rparr>"


section \<open>The registry of standards (segy/standards/registry.py)\<close>

text \<open>
  The registry stores references to descriptor objects, and \<^verbatim>\<open>get_spec\<close> answers with a
  deep copy, so the descriptors live in a store: a heap of objects addressed by their
  position, each object holding its attributes, with references where an attribute is
  itself a mutable object (a nested descriptor or a list). Attributes that are ints,
  strings or enum members are immutable values and are kept in place.
\<close>

type_synonym addr = nat

datatype obj =
    FieldObj StructuredFieldDescriptor
  | ListObj "addr list"
  | StructObj addr "nat option" "nat option"
  | TextObj TextHeaderDescriptor
  | DataObj TraceDataDescriptor
  | TraceObj addr addr "nat option"
  | SegyObj SegyStandard addr addr "addr option" addr

type_synonym heap = "obj list"

definition lookup :: "heap \<Rightarrow> addr \<Rightarrow> obj option" where
  "lookup h a = (if a < length h then Some (h ! a) else None)"

definition alloc :: "heap \<Rightarrow> obj \<Rightarrow> addr \<times> heap" where
  "alloc h ob = (length h, h @ [ob])"

text \<open>A later heap keeps the objects of an earlier one: it has them all, unchanged.\<close>

definition keeps :: "heap \<Rightarrow> heap \<Rightarrow> bool" where
  "keeps h h' = (length h \<le> length h' \<and> take (length h) h' = h)"

subsection \<open>Constructing a descriptor in the heap\<close>

fun alloc_fields :: "heap \<Rightarrow> StructuredFieldDescriptor list \<Rightarrow> addr list \<times> heap" where
  "alloc_fields h [] = ([], h)"
| "alloc_fields h (f # fs) =
     (let (a, h1) = alloc h (FieldObj f);
          (as, h2) = alloc_fields h1 fs
      in (a # as, h2))"

definition alloc_struct :: "heap \<Rightarrow> StructuredDataTypeDescriptor \<Rightarrow> addr \<times> heap" where
  "alloc_struct h d =
     (let (as, h1) = alloc_fields h (struct_fields d);
          (l, h2) = alloc h1 (ListObj as)
      in alloc h2 (StructObj l (struct_item_size d) (struct_offset d)))"

definition alloc_trace :: "heap \<Rightarrow> TraceDescriptor \<Rightarrow> addr \<times> heap" where
  "alloc_trace h d =
     (let (hdr, h1) = alloc_struct h (header_descriptor d);
          (dat, h2) = alloc h1 (DataObj (data_descriptor d))
      in alloc h2 (TraceObj hdr dat (trace_offset d)))"

definition alloc_segy :: "heap \<Rightarrow> SegyDescriptor \<Rightarrow> addr \<times> heap" where
  "alloc_segy h d =
     (let (t, h1) = alloc h (TextObj (text_file_header d));
          (b, h2) = alloc_struct h1 (binary_file_header d);
          (e, h3) = (case extended_text_header d of
                       None \<Rightarrow> (None, h2)
                     | Some x \<Rightarrow> (let (a, h') = alloc h2 (TextObj x) in (Some a, h')));
          (tr, h4) = alloc_trace h3 (trace d)
      in alloc h4 (SegyObj (segy_standard d) t b e tr))"

subsection \<open>Reading a descriptor from the heap\<close>

text \<open>
  The value of the descriptor at an address: what \<^verbatim>\<open>==\<close> on two descriptors compares.
  There is none where a reference leads outside the heap or to an object of another class.
\<close>

definition read_field :: "heap \<Rightarrow> addr \<Rightarrow> StructuredFieldDescriptor option" where
  "read_field h a = (case lookup h a of Some (FieldObj f) \<Rightarrow> Some f | _ \<Rightarrow> None)"

fun read_fields :: "heap \<Rightarrow> addr list \<Rightarrow> StructuredFieldDescriptor list option" where
  "read_fields h [] = Some []"
| "read_fields h (a # as) =
     (case read_field h a of
        None \<Rightarrow> None
      | Some f \<Rightarrow> (case read_fields h as of None \<Rightarrow> None | Some fs \<Rightarrow> Some (f # fs)))"

definition read_list :: "heap \<Rightarrow> addr \<Rightarrow> StructuredFieldDescriptor list option" where
  "read_list h a = (case lookup h a of Some (ListObj as) \<Rightarrow> read_fields h as | _ \<Rightarrow> None)"

definition read_struct :: "heap \<Rightarrow> addr \<Rightarrow> StructuredDataTypeDescriptor option" where
  "read_struct h a =
     (case lookup h a of
        Some (StructObj l item_size off) \<Rightarrow>
          (case read_list h l of
             None \<Rightarrow> None
           | Some fs \<Rightarrow> Some \<lparr>struct_fields = fs, struct_item_size = item_size, struct_offset = off\<rparr>)
      | _ \<Rightarrow> None)"

definition read_text :: "heap \<Rightarrow> addr \<Rightarrow> TextHeaderDescriptor option" where
  "read_text h a = (case lookup h a of Some (TextObj t) \<Rightarrow> Some t | _ \<Rightarrow> None)"

definition read_data :: "heap \<Rightarrow> addr \<Rightarrow> TraceDataDescriptor option" where
  "read_data h a = (case lookup h a of Some (DataObj d) \<Rightarrow> Some d | _ \<Rightarrow> None)"

definition read_trace :: "heap \<Rightarrow> addr \<Rightarrow> TraceDescriptor option" where
  "read_trace h a =
     (case lookup h a of
        Some (TraceObj hdr dat off) \<Rightarrow>
          (case (read_struct h hdr, read_data h dat) of
             (Some x, Some y) \<Rightarrow>
               Some \<lparr>header_descriptor = x, data_descriptor = y, trace_offset = off\<rparr>
           | _ \<Rightarrow> None)
      | _ \<Rightarrow> None)"

definition read_extended :: "heap \<Rightarrow> addr option \<Rightarrow> TextHeaderDescriptor option option" where
  "read_extended h e =
     (case e of
        None \<Rightarrow> Some None
      | Some a \<Rightarrow> (case read_text h a of None \<Rightarrow> None | Some t \<Rightarrow> Some (Some t)))"

definition read_segy :: "heap \<Rightarrow> addr \<Rightarrow> SegyDescriptor option" where
  "read_segy h a =
     (case lookup h a of
        Some (SegyObj std t b e tr) \<Rightarrow>
          (case (read_text h t, read_struct h b, read_extended h e, read_trace h tr) of
             (Some t', Some b', Some e', Some tr') \<Rightarrow>
               Some \<lparr>segy_standard = std, text_file_header = t', binary_file_header = b',
                     extended_text_header = e', trace = tr'\<rparr>
           | _ \<Rightarrow> None)
      | _ \<Rightarrow> None)"

text \<open>The objects a descriptor consists of: its own and, level by level, those it refers to.\<close>

definition list_objects :: "heap \<Rightarrow> addr \<Rightarrow> addr list" where
  "list_objects h a = a # (case lookup h a of Some (ListObj as) \<Rightarrow> as | _ \<Rightarrow> [])"

definition struct_objects :: "heap \<Rightarrow> addr \<Rightarrow> addr list" where
  "struct_objects h a =
     a # (case lookup h a of Some (StructObj l item_size off) \<Rightarrow> list_objects h l | _ \<Rightarrow> [])"

definition trace_objects :: "heap \<Rightarrow> addr \<Rightarrow> addr list" where
  "trace_objects h a =
     a # (case lookup h a of
            Some (TraceObj hdr dat off) \<Rightarrow> struct_objects h hdr @ [dat]
          | _ \<Rightarrow> [])"

definition segy_objects :: "heap \<Rightarrow> addr \<Rightarrow> addr list" where
  "segy_objects h a =
     a # (case lookup h a of
            Some (SegyObj std t b e tr) \<Rightarrow>
              t # struct_objects h b @ (case e of None \<Rightarrow> [] | Some x \<Rightarrow> [x]) @ trace_objects h tr
          | _ \<Rightarrow> [])"

subsection \<open>The registry\<close>

text \<open>
  Modelled from the spec: \<^verbatim>\<open>model_copy(deep=True)\<close> of the descriptor's base class (pydantic,
  not among the sources), a deep copy: it builds a new object for the descriptor and for
  every object the descriptor consists of, with the same attribute values.
\<close>

definition model_copy_deep :: "heap \<Rightarrow> addr \<Rightarrow> (addr \<times> heap) option" where
  "model_copy_deep h a = (case read_segy h a of None \<Rightarrow> None | Some d \<Rightarrow> Some (alloc_segy h d))"

record State =
  st_heap :: heap
  st_registry :: "SegyStandard \<rightharpoonup> addr"

definition register_spec :: "State \<Rightarrow> SegyStandard \<Rightarrow> addr \<Rightarrow> State" where
  "register_spec st spec_type spec = st\<lparr>st_registry := (st_registry st)(spec_type \<mapsto> spec)\<rparr>"

text \<open>
  The name of a standard as the message prints it (\<^verbatim>\<open>SegyStandard.REV0\<close> and so on).
\<close>

fun str_standard :: "SegyStandard \<Rightarrow> string" where
  "str_standard REV0 = ''SegyStandard.REV0''"
| "str_standard REV1 = ''SegyStandard.REV1''"
| "str_standard REV2 = ''SegyStandard.REV2''"
| "str_standard REV21 = ''SegyStandard.REV21''"
| "str_standard CUSTOM = ''SegyStandard.CUSTOM''"

definition get_spec :: "State \<Rightarrow> SegyStandard \<Rightarrow> error + (addr \<times> State)" where
  "get_spec st spec_type =
     (case st_registry st spec_type of
        None \<Rightarrow>
          Inl (NotImplementedError
            (''Unknown or unsupported SEG-Y spec: '' @ str_standard spec_type @ ''. If you ''
             @ ''would like to use '' @ str_standard spec_type @ '', please register it with ''
             @ ''the `SegySpecFactory` using its `register_spec` method.''))
      | Some spec \<Rightarrow>
          (case model_copy_deep (st_heap st) spec of
             None \<Rightarrow> Inl (ValueError ''dangling reference'')
           | Some (copy, h') \<Rightarrow> Inr (copy, st\<lparr>st_heap := h'\<rparr>)))"

text \<open>
  Mutating objects in place: a sequence of writes, each replacing the object at an address.
\<close>

definition mutate :: "(addr \<times> obj) list \<Rightarrow> heap \<Rightarrow> heap" where
  "mutate ws h = fold (\<lambda>(b, ob) h. h[b := ob]) ws h"

text \<open>The state in which the module has built the Rev0 descriptor and registered it.\<close>

definition rev0_registered :: State where
  "rev0_registered =
     (let (a, h) = alloc_segy [] rev0_segy
      in register_spec \<lparr>st_heap = h, st_registry = Map.empty\<rparr> REV0 a)"


section \<open>Auxiliary facts\<close>

subsection \<open>Splitting a buffer into records\<close>

lemma scalar_width_pos: "0 < scalar_width fmt"
  by (cases fmt) simp_all

lemma chunks_Nil: "chunks n [] = []"
  by (simp add: chunks_def)

lemma length_chunks: "length (chunks n xs) = length xs div n"
  by (simp add: chunks_def)

lemma chunks_elem_length:
  assumes "r \<in> set (chunks n xs)" shows "length r = n"
proof -
  from assms obtain k where k: "k < length xs div n" and r: "r = take n (drop (k * n) xs)"
    by (auto simp: chunks_def)
  from k have "0 < n" by (cases n) simp_all
  from k have "Suc k \<le> length xs div n" by simp
  then have "Suc k * n \<le> length xs div n * n" by (rule mult_le_mono1)
  also have "\<dots> \<le> length xs" by simp
  finally have "k * n + n \<le> length xs" by simp
  then show ?thesis using r by simp
qed

lemma chunks_append:
  assumes "0 < n" and "length r mod n = 0"
  shows "chunks n (r @ xs) = chunks n r @ chunks n xs"
proof -
  define m where "m = length r div n"
  define q where "q = length xs div n"
  have len: "length r = m * n" using assms(2) by (simp add: m_def mod_eq_0_iff_dvd)
  have total: "length (r @ xs) div n = m + q"
    using assms by (simp add: len q_def)
  have "[0..<m + q] = [0..<m] @ [m..<m + q]"
    by (rule upt_add_eq_append) simp
  also have "[m..<m + q] = [m..<q + m]"
    by (simp only: add.commute [of m q])
  also have "\<dots> = map (\<lambda>k. k + m) [0..<q]"
    by (simp only: map_add_upt)
  finally have upt: "[0..<m + q] = [0..<m] @ map (\<lambda>k. k + m) [0..<q]" .
  have first: "map (\<lambda>k. take n (drop (k * n) (r @ xs))) [0..<m] = map (\<lambda>k. take n (drop (k * n) r)) [0..<m]"
  proof (rule map_cong [OF refl])
    fix k assume "k \<in> set [0..<m]"
    then have "Suc k \<le> m" by simp
    then have "Suc k * n \<le> m * n" by (rule mult_le_mono1)
    then have "k * n + n \<le> length r" by (simp add: len)
    then show "take n (drop (k * n) (r @ xs)) = take n (drop (k * n) r)" by simp
  qed
  have second: "map (\<lambda>k. take n (drop (k * n) (r @ xs))) (map (\<lambda>k. k + m) [0..<q]) = map (\<lambda>k. take n (drop (k * n) xs)) [0..<q]"
    by (simp add: len o_def add_mult_distrib)
  show ?thesis
    unfolding chunks_def total upt map_append first second
    by (simp add: m_def q_def)
qed

lemma chunks_exact:
  assumes "0 < n" and "length r = n" shows "chunks n r = [r]"
  using assms by (simp add: chunks_def)

lemma chunks_concat_multiple:
  assumes "0 < n" and "\<forall>r \<in> set rs. length r mod n = 0"
  shows "chunks n (concat rs) = concat (map (chunks n) rs)"
  using assms(2)
proof (induction rs)
  case Nil
  show ?case by (simp add: chunks_Nil)
next
  case (Cons r rs)
  then show ?case using assms(1) by (simp add: chunks_append)
qed

lemma chunks_concat:
  assumes "0 < n" and "\<forall>r \<in> set rs. length r = n"
  shows "chunks n (concat rs) = rs"
proof -
  have "chunks n (concat rs) = concat (map (chunks n) rs)"
    using assms by (intro chunks_concat_multiple) simp_all
  also have "map (chunks n) rs = map (\<lambda>r. [r]) rs"
    using assms by (intro map_cong [OF refl]) (simp add: chunks_exact)
  also have "concat (map (\<lambda>r. [r]) rs) = rs"
    by (induction rs) simp_all
  finally show ?thesis .
qed

lemma length_concat_uniform:
  assumes "\<forall>r \<in> set rs. length r = n" shows "length (concat rs) = length rs * n"
  using assms by (induction rs) simp_all

lemma length_concat_map_chunks:
  assumes "\<And>c. length c = n \<Longrightarrow> length (f c) = n" and "length xs mod n = 0"
  shows "length (concat (map f (chunks n xs))) = length xs"
proof -
  have "\<forall>r \<in> set (map f (chunks n xs)). length r = n"
    using assms(1) chunks_elem_length by auto
  then have "length (concat (map f (chunks n xs))) = length (map f (chunks n xs)) * n"
    by (rule length_concat_uniform)
  also have "\<dots> = length xs div n * n" by (simp add: length_chunks)
  also have "\<dots> = length xs" using assms(2) by (simp add: mod_eq_0_iff_dvd)
  finally show ?thesis .
qed

subsection \<open>Conversion of the data block\<close>

lemma length_bytes_of_word: "length (bytes_of_word order w) = 4"
  by (cases order) (simp_all add: bytes_of_word_def)

lemma length_convert_data_block:
  assumes "length bs mod 4 = 0"
  shows "length (convert_data_block order bs) = length bs"
  unfolding convert_data_block_def
  using assms by (intro length_concat_map_chunks) (simp_all add: length_bytes_of_word)

lemma converted_record:
  assumes r: "length r = hs + 4 * n"
  shows "length (take hs r @ convert_data_block order (drop hs r)) = hs + 4 * n"
    and "take hs (take hs r @ convert_data_block order (drop hs r)) = take hs r"
    and "drop hs (take hs r @ convert_data_block order (drop hs r)) = convert_data_block order (drop hs r)"
proof -
  have "length (drop hs r) mod 4 = 0" using r by simp
  then have "length (convert_data_block order (drop hs r)) = length (drop hs r)"
    by (rule length_convert_data_block)
  then show "length (take hs r @ convert_data_block order (drop hs r)) = hs + 4 * n"
    using r by simp
  show "take hs (take hs r @ convert_data_block order (drop hs r)) = take hs r"
    using r by simp
  show "drop hs (take hs r @ convert_data_block order (drop hs r)) = convert_data_block order (drop hs r)"
    using r by simp
qed

lemma chunks_of_converted:
  assumes dt: "nd_dtype t = TraceDtype hdt (DataDtype IBM32 order n)"
    and pos: "0 < itemsize (nd_dtype t)"
  shows "chunks (itemsize (nd_dtype t)) (nd_buffer (trace_ibm2ieee_inplace t))
         = map (\<lambda>r. take (itemsize hdt) r @ convert_data_block order (drop (itemsize hdt) r))
             (chunks (itemsize (nd_dtype t)) (nd_buffer t))"
proof -
  let ?sz = "itemsize (nd_dtype t)"
  let ?f = "\<lambda>r. take (itemsize hdt) r @ convert_data_block order (drop (itemsize hdt) r)"
  have sz: "?sz = itemsize hdt + 4 * n" using dt by simp
  have buf: "nd_buffer (trace_ibm2ieee_inplace t) = concat (map ?f (chunks ?sz (nd_buffer t)))"
    using dt by (simp add: trace_ibm2ieee_inplace_def)
  have "\<forall>r \<in> set (map ?f (chunks ?sz (nd_buffer t))). length r = ?sz"
  proof
    fix r' assume "r' \<in> set (map ?f (chunks ?sz (nd_buffer t)))"
    then obtain r where "r \<in> set (chunks ?sz (nd_buffer t))" and r': "r' = ?f r" by auto
    then have "length r = itemsize hdt + 4 * n" using chunks_elem_length sz by metis
    then show "length r' = ?sz" unfolding r' sz by (rule converted_record(1))
  qed
  with pos show ?thesis unfolding buf by (rule chunks_concat)
qed


subsection \<open>Decoding a buffer of whole records\<close>

lemma itemsize_newbyteorder: "itemsize (newbyteorder dt) = itemsize dt"
  by (induction dt) simp_all

lemma length_swap_field: "length (swap_field off w bs) = length bs"
  by (auto simp: swap_field_def)

lemma length_fold_swap:
  "length (fold (\<lambda>(name, off, fmt, order). swap_field off (scalar_width fmt)) flds bs) = length bs"
  by (induction flds arbitrary: bs) (auto simp: length_swap_field)

lemma length_byteswap_item:
  "length bs = itemsize dt \<Longrightarrow> length (byteswap_item dt bs) = length bs"
proof (induction dt arbitrary: bs)
  case (DataDtype fmt order samples)
  have "length bs mod scalar_width fmt = 0" using DataDtype by simp
  then have "length (concat (map rev (chunks (scalar_width fmt) bs))) = length bs"
    by (intro length_concat_map_chunks) simp_all
  then show ?case by simp
next
  case (HeaderDtype flds sz)
  then show ?case by (simp add: length_fold_swap)
next
  case (TraceDtype h d)
  have "length (take (itemsize h) bs) = itemsize h" "length (drop (itemsize h) bs) = itemsize d"
    using TraceDtype.prems by simp_all
  then show ?case using TraceDtype.IH TraceDtype.prems by simp
qed

lemma byteswap_concat:
  assumes "0 < itemsize dt" and "\<forall>r \<in> set rs. length r = itemsize dt"
  shows "byteswap_newbyteorder \<lparr>nd_dtype = dt, nd_shape = shp, nd_buffer = concat rs\<rparr>
         = \<lparr>nd_dtype = newbyteorder dt, nd_shape = shp, nd_buffer = concat (map (byteswap_item dt) rs)\<rparr>"
  using assms by (simp add: byteswap_newbyteorder_def chunks_concat)

lemma frombuffer_concat:
  assumes "0 < itemsize dt" and "\<forall>r \<in> set rs. length r = itemsize dt"
  shows "frombuffer (concat rs) dt
         = Inr \<lparr>nd_dtype = dt,
                nd_shape = (case dt of DataDtype fmt order samples \<Rightarrow> [length rs, samples] | _ \<Rightarrow> [length rs]),
                nd_buffer = concat rs\<rparr>"
proof -
  have "length (concat rs) = length rs * itemsize dt"
    using assms(2) by (rule length_concat_uniform)
  then have d: "length (concat rs) div itemsize dt = length rs"
    and m: "length (concat rs) mod itemsize dt = 0"
    using assms(1) by simp_all
  show ?thesis unfolding frombuffer_def d m using assms(1) by simp
qed

lemma concat_map_over_concat:
  "concat (map g (concat xss)) = concat (map (\<lambda>xs. concat (map g xs)) xss)"
  by (induction xss) simp_all

lemma decode_record_unfold:
  "decode_record HeaderIndexer spec = byteswap_item (header_dtype spec)"
  "spec_format spec \<noteq> IBM32 \<Longrightarrow> decode_record TraceIndexer spec = byteswap_item (trace_dtype spec)"
  "spec_format spec \<noteq> IBM32 \<Longrightarrow> decode_record DataIndexer spec = byteswap_item (data_dtype spec)"
  "spec_format spec = IBM32 \<Longrightarrow> decode_record TraceIndexer spec
     = (\<lambda>r. take (spec_header_item_size spec) (byteswap_item (trace_dtype spec) r)
              @ convert_data_block (flip (order_of (spec_endianness spec)))
                  (drop (spec_header_item_size spec) (byteswap_item (trace_dtype spec) r)))"
  "spec_format spec = IBM32 \<Longrightarrow> decode_record DataIndexer spec
     = (\<lambda>r. concat (map (\<lambda>w. bytes_of_word native
                                  (ibm2ieee (word_of_bytes (flip (order_of (spec_endianness spec))) w)))
                        (chunks 4 (byteswap_item (data_dtype spec) r))))"
  by (rule ext, simp add: Let_def)+

lemma decode_concat:
  assumes pos: "0 < itemsize (region_dtype cls spec)"
    and len: "\<forall>r \<in> set rs. length r = itemsize (region_dtype cls spec)"
  shows "decode cls spec (concat rs)
         = Inr \<lparr>nd_dtype = decoded_dtype cls spec,
                nd_shape = length rs # decoded_axes cls spec,
                nd_buffer = concat (map (decode_record cls spec) rs)\<rparr>"
proof (cases cls)
  case HeaderIndexer
  have p: "0 < itemsize (header_dtype spec)" and l: "\<forall>r \<in> set rs. length r = itemsize (header_dtype spec)"
    using pos len HeaderIndexer by simp_all
  have "frombuffer (concat rs) (header_dtype spec)
        = Inr \<lparr>nd_dtype = header_dtype spec, nd_shape = [length rs], nd_buffer = concat rs\<rparr>"
    using frombuffer_concat [OF p l] by (simp add: header_dtype_def)
  then show ?thesis
    using HeaderIndexer byteswap_concat [OF p l] by (simp add: decode_record_unfold)
next
  case DataIndexer
  have p: "0 < itemsize (data_dtype spec)" and l: "\<forall>r \<in> set rs. length r = itemsize (data_dtype spec)"
    using pos len DataIndexer by simp_all
  have fb: "frombuffer (concat rs) (data_dtype spec)
        = Inr \<lparr>nd_dtype = data_dtype spec, nd_shape = [length rs, spec_samples spec], nd_buffer = concat rs\<rparr>"
    using frombuffer_concat [OF p l] by (simp add: data_dtype_def)
  show ?thesis
  proof (cases "spec_format spec = IBM32")
    case False
    then show ?thesis using DataIndexer fb byteswap_concat [OF p l] by (simp add: decode_record_unfold)
  next
    case True
    let ?o = "flip (order_of (spec_endianness spec))"
    let ?g = "\<lambda>w. bytes_of_word native (ibm2ieee (word_of_bytes ?o w))"
    have sz: "itemsize (data_dtype spec) = spec_samples spec * 4"
      using True by (simp add: data_dtype_def)
    have "\<forall>r \<in> set (map (byteswap_item (data_dtype spec)) rs). length r mod 4 = 0"
      using l sz by (auto simp: length_byteswap_item)
    then have "chunks 4 (concat (map (byteswap_item (data_dtype spec)) rs))
               = concat (map (chunks 4) (map (byteswap_item (data_dtype spec)) rs))"
      by (intro chunks_concat_multiple) simp_all
    then have "concat (map ?g (chunks 4 (concat (map (byteswap_item (data_dtype spec)) rs))))
               = concat (map (\<lambda>r. concat (map ?g (chunks 4 (byteswap_item (data_dtype spec) r)))) rs)"
      by (simp add: concat_map_over_concat o_def)
    then show ?thesis
      using DataIndexer True fb byteswap_concat [OF p l]
      by (simp add: ibm2ieee_array_def data_dtype_def Let_def decode_record_unfold)
  qed
next
  case TraceIndexer
  have p: "0 < itemsize (trace_dtype spec)" and l: "\<forall>r \<in> set rs. length r = itemsize (trace_dtype spec)"
    using pos len TraceIndexer by simp_all
  have fb: "frombuffer (concat rs) (trace_dtype spec)
        = Inr \<lparr>nd_dtype = trace_dtype spec, nd_shape = [length rs], nd_buffer = concat rs\<rparr>"
    using frombuffer_concat [OF p l] by (simp add: trace_dtype_def)
  show ?thesis
  proof (cases "spec_format spec = IBM32")
    case False
    then show ?thesis using TraceIndexer fb byteswap_concat [OF p l] by (simp add: decode_record_unfold)
  next
    case True
    let ?o = "flip (order_of (spec_endianness spec))"
    let ?hs = "spec_header_item_size spec"
    let ?sw = "\<lparr>nd_dtype = newbyteorder (trace_dtype spec), nd_shape = [length rs],
                nd_buffer = concat (map (byteswap_item (trace_dtype spec)) rs)\<rparr>"
    have nd: "newbyteorder (trace_dtype spec)
              = TraceDtype (newbyteorder (header_dtype spec)) (DataDtype IBM32 ?o (spec_samples spec))"
      using True by (simp add: trace_dtype_def data_dtype_def)
    have hs: "itemsize (newbyteorder (header_dtype spec)) = ?hs"
      by (simp add: itemsize_newbyteorder header_dtype_def)
    have sz: "itemsize (newbyteorder (trace_dtype spec)) = itemsize (trace_dtype spec)"
      by (rule itemsize_newbyteorder)
    have "\<forall>r \<in> set (map (byteswap_item (trace_dtype spec)) rs). length r = itemsize (trace_dtype spec)"
      using l by (auto simp: length_byteswap_item)
    then have ch: "chunks (itemsize (trace_dtype spec)) (concat (map (byteswap_item (trace_dtype spec)) rs))
               = map (byteswap_item (trace_dtype spec)) rs"
      using p by (intro chunks_concat)
    have "trace_ibm2ieee_inplace ?sw
          = \<lparr>nd_dtype = TraceDtype (newbyteorder (header_dtype spec)) (DataDtype FLOAT32 native (spec_samples spec)),
             nd_shape = [length rs],
             nd_buffer = concat (map (\<lambda>r. take ?hs r @ convert_data_block ?o (drop ?hs r))
                                  (map (byteswap_item (trace_dtype spec)) rs))\<rparr>"
    proof -
      have tsz: "itemsize (trace_dtype spec) = ?hs + spec_samples spec * 4"
        using True by (simp add: trace_dtype_def header_dtype_def data_dtype_def)
      show ?thesis
        by (simp add: trace_ibm2ieee_inplace_def nd hs ch [unfolded tsz] Let_def)
    qed
    then show ?thesis
      using TraceIndexer True fb byteswap_concat [OF p l]
      by (simp add: Let_def o_def decode_record_unfold)
  qed
qed

subsection \<open>Merging and fetching byte ranges\<close>

lemma byte_range_append:
  assumes "0 \<le> a" and "a \<le> b" and "b \<le> c"
  shows "byte_range content a b @ byte_range content b c = byte_range content a c"
proof -
  have nb: "nat b = nat a + nat (b - a)" and nc: "nat (c - a) = nat (b - a) + nat (c - b)"
    using assms by simp_all
  have "drop (nat b) content = drop (nat (b - a)) (drop (nat a) content)"
    by (simp only: nb drop_drop add.commute)
  then show ?thesis
    unfolding byte_range_def nc by (simp only: take_add)
qed

lemma length_byte_range:
  assumes "0 \<le> s" and "s \<le> e" and "e \<le> int (length content)"
  shows "length (byte_range content s e) = nat (e - s)"
  using assms by (simp add: byte_range_def)

lemma merge_blocks_concat:
  assumes "chained ne rest" and "0 \<le> ns" and "ns \<le> ne"
  shows "concat (map (\<lambda>(s, e). byte_range content s e) (merge_blocks 0 B ns ne rest))
         = byte_range content ns ne @ concat (map (\<lambda>(s, e). byte_range content s e) rest)"
  using assms
proof (induction rest arbitrary: ns ne)
  case Nil
  show ?case by simp
next
  case (Cons p rest)
  obtain s e where p: "p = (s, e)" by (cases p)
  from Cons.prems p have ch: "ne \<le> s" "s \<le> e" "chained e rest" by simp_all
  show ?case
  proof (cases "s - ne > 0 \<or> e - ns > B")
    case True
    have "0 \<le> s" using ch(1) Cons.prems by simp
    from Cons.IH [OF ch(3) this ch(2)] True show ?thesis by (simp add: p)
  next
    case False
    then have eq: "s = ne" using ch(1) by simp
    have "ns \<le> e" using Cons.prems ch by simp
    from Cons.IH [OF ch(3) Cons.prems(2) this]
    have "concat (map (\<lambda>(s, e). byte_range content s e) (merge_blocks 0 B ns e rest))
          = byte_range content ns e @ concat (map (\<lambda>(s, e). byte_range content s e) rest)" .
    moreover have "byte_range content ns e = byte_range content ns ne @ byte_range content ne e"
      using Cons.prems ch eq by (intro byte_range_append [symmetric]) simp_all
    ultimately show ?thesis using False by (simp add: p eq)
  qed
qed

lemma chained_bounds:
  assumes "chained e rest" and "p \<in> set rest"
  shows "e \<le> fst p \<and> fst p \<le> snd p"
  using assms
proof (induction rest arbitrary: e)
  case Nil
  then show ?case by simp
next
  case (Cons q rest)
  obtain s e' where q: "q = (s, e')" by (cases q)
  from Cons.prems q have ch: "e \<le> s" "s \<le> e'" "chained e' rest" by simp_all
  show ?case
  proof (cases "p = q")
    case True
    then show ?thesis using ch q by simp
  next
    case False
    then have "p \<in> set rest" using Cons.prems by simp
    from Cons.IH [OF ch(3) this] ch show ?thesis by simp
  qed
qed

lemma chained_sorted:
  assumes "chained ne rest" and "ns \<le> ne"
  shows "sorted ((ns, ne) # rest)"
  using assms
proof (induction rest arbitrary: ns ne)
  case Nil
  show ?case by simp
next
  case (Cons q rest)
  obtain s e' where q: "q = (s, e')" by (cases q)
  from Cons.prems q have ch: "ne \<le> s" "s \<le> e'" "chained e' rest" by simp_all
  have tail: "sorted ((s, e') # rest)" using Cons.IH [OF ch(3) ch(2)] .
  have "(ns, ne) \<le> p" if "p \<in> set (q # rest)" for p
  proof -
    from chained_bounds [OF Cons.prems(1) that] have "ne \<le> fst p" "fst p \<le> snd p" by simp_all
    then show ?thesis using Cons.prems(2) by (cases p) (auto simp: less_eq_prod_def)
  qed
  then show ?case using tail q by simp
qed

lemma ranges_form:
  "indices_to_byte_ranges cls spec I =
     (map (\<lambda>i. region_offset cls spec + i * trace_stride spec) I,
      map (\<lambda>i. region_offset cls spec + i * trace_stride spec
                 + int (itemsize (region_dtype cls spec))) I)"
  by (cases cls)
     (simp_all add: trace_stride_def trace_dtype_def header_dtype_def data_dtype_def Let_def
        algebra_simps)

lemma region_size_le_stride: "int (itemsize (region_dtype cls spec)) \<le> trace_stride spec"
  by (cases cls) (simp_all add: trace_stride_def trace_dtype_def header_dtype_def data_dtype_def)

lemma region_end_le:
  "region_offset cls spec + int (itemsize (region_dtype cls spec))
   \<le> int (spec_offset spec) + trace_stride spec"
  by (cases cls) (simp_all add: trace_stride_def trace_dtype_def header_dtype_def data_dtype_def)

lemma region_offset_nonneg: "0 \<le> region_offset cls spec"
  by (cases cls) simp_all

lemma trace_stride_nonneg: "0 \<le> trace_stride spec"
  by (simp add: trace_stride_def)

lemma zip_map_same: "zip (map f xs) (map g xs) = map (\<lambda>x. (f x, g x)) xs"
  by (induction xs) simp_all

lemma chained_ranges:
  fixes a T L :: int
  assumes "sorted_wrt (<) (i # I)" and "0 \<le> L" and "L \<le> T"
  shows "chained (a + i * T + L) (map (\<lambda>j. (a + j * T, a + j * T + L)) I)"
  using assms(1)
proof (induction I arbitrary: i)
  case Nil
  show ?case by simp
next
  case (Cons j I)
  then have ij: "i < j" and tail: "sorted_wrt (<) (j # I)" by simp_all
  have "0 \<le> T" using assms by simp
  have "(i + 1) * T \<le> j * T"
    using ij \<open>0 \<le> T\<close> by (intro mult_right_mono) simp_all
  then have "a + i * T + L \<le> a + j * T"
    using assms(3) by (simp add: algebra_simps)
  then show ?case using Cons.IH [OF tail] assms(2) by simp
qed

lemma merge_cat_file_increasing:
  fixes a T L :: int
  assumes files: "map_of (fs_files fs) url = Some content"
    and inc: "sorted_wrt (<) I" and nonneg: "\<forall>i \<in> set I. 0 \<le> i"
    and a: "0 \<le> a" and L: "0 \<le> L" "L \<le> T"
  shows "\<exists>fs'. merge_cat_file fs url (map (\<lambda>i. a + i * T) I) (map (\<lambda>i. a + i * T + L) I) B
           = (Inr (concat (map (\<lambda>i. byte_range content (a + i * T) (a + i * T + L)) I)), fs')"
proof (cases I)
  case Nil
  then show ?thesis
    using files by (simp add: merge_cat_file_def merge_offset_ranges_def cat_ranges_def)
next
  case (Cons i I')
  show ?thesis
  proof (cases I')
    case Nil
    then show ?thesis
      using files Cons by (simp add: merge_cat_file_def merge_offset_ranges_def cat_ranges_def)
  next
    case (Cons j I'')
    let ?f = "\<lambda>j. (a + j * T, a + j * T + L)"
    let ?br = "\<lambda>(s, e). byte_range content s e"
    have T: "0 \<le> T" using L by simp
    have i0: "0 \<le> i" using nonneg \<open>I = i # I'\<close> by simp
    have ch: "chained (a + i * T + L) (map ?f I')"
      using inc L unfolding \<open>I = i # I'\<close> by (rule chained_ranges)
    have s0: "0 \<le> a + i * T" using a i0 T by simp
    have se: "a + i * T \<le> a + i * T + L" using L by simp
    have srt: "sort (zip (map (\<lambda>i. a + i * T) I) (map (\<lambda>i. a + i * T + L) I)) = ?f i # map ?f I'"
    proof -
      have "zip (map (\<lambda>i. a + i * T) I) (map (\<lambda>i. a + i * T + L) I) = ?f i # map ?f I'"
        by (simp add: zip_map_same \<open>I = i # I'\<close>)
      moreover have "sort (?f i # map ?f I') = ?f i # map ?f I'"
        by (rule sorted_sort_id) (rule chained_sorted [OF ch se])
      ultimately show ?thesis by (simp only: )
    qed
    define merged where "merged = merge_blocks 0 B (a + i * T) (a + i * T + L) (map ?f I')"
    have mor: "merge_offset_ranges (map (\<lambda>i. a + i * T) I) (map (\<lambda>i. a + i * T + L) I) B
               = Inr (map fst merged, map snd merged)"
      unfolding merge_offset_ranges_def srt
      by (simp add: \<open>I = i # I'\<close> \<open>I' = j # I''\<close> merged_def Let_def)
    have zm: "zip (map fst merged) (map snd merged) = merged"
      by (simp add: zip_map_same)
    have "concat (map ?br merged) = byte_range content (a + i * T) (a + i * T + L) @ concat (map ?br (map ?f I'))"
      unfolding merged_def by (rule merge_blocks_concat [OF ch s0 se])
    also have "\<dots> = concat (map (\<lambda>i. byte_range content (a + i * T) (a + i * T + L)) I)"
      by (simp add: \<open>I = i # I'\<close> o_def)
    finally have cc: "concat (map ?br merged)
                      = concat (map (\<lambda>i. byte_range content (a + i * T) (a + i * T + L)) I)" .
    show ?thesis
      unfolding merge_cat_file_def mor
      using files by (simp add: cat_ranges_def zm cc)
  qed
qed

lemma nth_chunk_concat:
  assumes "\<forall>r \<in> set rs. length r = n" and "k < length rs"
  shows "take n (drop (k * n) (concat rs)) = rs ! k"
  using assms
proof (induction rs arbitrary: k)
  case Nil
  then show ?case by simp
next
  case (Cons r rs)
  then have lr: "length r = n" by simp
  show ?case
  proof (cases k)
    case 0
    then show ?thesis using lr by simp
  next
    case (Suc k')
    then have "k' < length rs" using Cons.prems by simp
    moreover have "\<forall>r \<in> set rs. length r = n" using Cons.prems by simp
    ultimately have "take n (drop (k' * n) (concat rs)) = rs ! k'" by (rule Cons.IH [rotated])
    then show ?thesis using Suc lr by simp
  qed
qed

lemma itemsize_decoded: "itemsize (decoded_dtype cls spec) = itemsize (region_dtype cls spec)"
  by (cases cls) (simp_all add: itemsize_newbyteorder trace_dtype_def header_dtype_def data_dtype_def)

lemma length_decode_record:
  assumes "length r = itemsize (region_dtype cls spec)"
  shows "length (decode_record cls spec r) = itemsize (region_dtype cls spec)"
proof (cases cls)
  case HeaderIndexer
  then show ?thesis using assms by (simp add: length_byteswap_item)
next
  case DataIndexer
  show ?thesis
  proof (cases "spec_format spec = IBM32")
    case False
    then show ?thesis using assms DataIndexer by (simp add: length_byteswap_item)
  next
    case True
    have lb: "length (byteswap_item (data_dtype spec) r) = spec_samples spec * 4"
      using assms DataIndexer True by (simp add: length_byteswap_item) (simp add: data_dtype_def)
    then have "length (byteswap_item (data_dtype spec) r) mod 4 = 0" by simp
    then have "length (concat (map (\<lambda>w. bytes_of_word native
                  (ibm2ieee (word_of_bytes (flip (order_of (spec_endianness spec))) w)))
                  (chunks 4 (byteswap_item (data_dtype spec) r))))
               = length (byteswap_item (data_dtype spec) r)"
      by (intro length_concat_map_chunks) (simp_all add: length_bytes_of_word)
    then show ?thesis using DataIndexer True lb by (simp add: Let_def data_dtype_def)
  qed
next
  case TraceIndexer
  show ?thesis
  proof (cases "spec_format spec = IBM32")
    case False
    then show ?thesis using assms TraceIndexer by (simp add: length_byteswap_item)
  next
    case True
    have "length (byteswap_item (trace_dtype spec) r) = spec_header_item_size spec + 4 * spec_samples spec"
      using assms TraceIndexer True
      by (simp add: length_byteswap_item) (simp add: trace_dtype_def header_dtype_def data_dtype_def)
    from converted_record(1) [OF this]
    show ?thesis using TraceIndexer True
      by (simp add: Let_def trace_dtype_def header_dtype_def data_dtype_def)
  qed
qed

lemma region_length:
  assumes enough: "int (spec_offset spec) + N * trace_stride spec \<le> int (length content)"
    and inb: "0 \<le> i" "i < N"
  shows "length (byte_range content (region_offset cls spec + i * trace_stride spec)
                  (region_offset cls spec + i * trace_stride spec + int (itemsize (region_dtype cls spec))))
         = itemsize (region_dtype cls spec)"
proof -
  let ?T = "trace_stride spec"
  let ?s = "region_offset cls spec + i * ?T"
  let ?L = "int (itemsize (region_dtype cls spec))"
  have T: "0 \<le> ?T" by (rule trace_stride_nonneg)
  have "(i + 1) * ?T \<le> N * ?T" using inb T by (intro mult_right_mono) simp_all
  then have "int (spec_offset spec) + i * ?T + ?T \<le> int (length content)"
    using enough by (simp add: algebra_simps)
  moreover have "?s + ?L \<le> int (spec_offset spec) + i * ?T + ?T"
    using region_end_le [of cls spec] by simp
  ultimately have e: "?s + ?L \<le> int (length content)" by simp
  have s: "0 \<le> ?s" using region_offset_nonneg [of cls spec] inb(1) T by simp
  have "length (byte_range content ?s (?s + ?L)) = nat (?s + ?L - ?s)"
    using s _ e by (rule length_byte_range) simp
  then show ?thesis by simp
qed

lemma trace_region_eq:
  "trace_region cls spec content i
   = byte_range content (region_offset cls spec + i * trace_stride spec)
       (region_offset cls spec + i * trace_stride spec + int (itemsize (region_dtype cls spec)))"
  by (simp add: trace_region_def ranges_form)

lemma trace_region_fun:
  "trace_region cls spec content
   = (\<lambda>i. byte_range content (region_offset cls spec + i * trace_stride spec)
       (region_offset cls spec + i * trace_stride spec + int (itemsize (region_dtype cls spec))))"
  by (rule ext) (rule trace_region_eq)

lemma fetch_increasing:
  assumes files: "map_of (fs_files fs) (idx_url self) = Some content"
    and enough: "int (spec_offset (idx_spec self)) + idx_max_value self * trace_stride (idx_spec self)
                 \<le> int (length content)"
    and pos: "0 < itemsize (region_dtype (idx_class self) (idx_spec self))"
    and inc: "sorted_wrt (<) I"
    and inb: "\<forall>i \<in> set I. 0 \<le> i \<and> i < idx_max_value self"
  shows "\<exists>fs'. fetch self fs I
           = (Inr \<lparr>nd_dtype = decoded_dtype (idx_class self) (idx_spec self),
                    nd_shape = filter (\<lambda>d. d \<noteq> 1) (length I # decoded_axes (idx_class self) (idx_spec self)),
                    nd_buffer = concat (map (\<lambda>i. decode_record (idx_class self) (idx_spec self)
                                                 (trace_region (idx_class self) (idx_spec self) content i)) I)\<rparr>,
              fs')"
proof -
  let ?cls = "idx_class self" and ?spec = "idx_spec self"
  let ?a = "region_offset ?cls ?spec" and ?T = "trace_stride ?spec"
  let ?L = "int (itemsize (region_dtype ?cls ?spec))"
  let ?rs = "map (trace_region ?cls ?spec content) I"
  have nonneg: "\<forall>i \<in> set I. 0 \<le> i" using inb by simp
  from merge_cat_file_increasing
         [OF files inc nonneg region_offset_nonneg _ region_size_le_stride,
          of ?cls ?spec ?cls ?spec default_block_size]
  obtain fs' where mcf:
    "merge_cat_file fs (idx_url self) (map (\<lambda>i. ?a + i * ?T) I) (map (\<lambda>i. ?a + i * ?T + ?L) I)
       default_block_size
     = (Inr (concat (map (\<lambda>i. byte_range content (?a + i * ?T) (?a + i * ?T + ?L)) I)), fs')"
    by auto
  have buf: "concat (map (\<lambda>i. byte_range content (?a + i * ?T) (?a + i * ?T + ?L)) I) = concat ?rs"
    by (simp only: trace_region_fun)
  have len: "\<forall>r \<in> set ?rs. length r = itemsize (region_dtype ?cls ?spec)"
    using inb region_length [OF enough] by (auto simp: trace_region_eq)
  have dec: "decode ?cls ?spec (concat ?rs)
         = Inr \<lparr>nd_dtype = decoded_dtype ?cls ?spec,
                nd_shape = length ?rs # decoded_axes ?cls ?spec,
                nd_buffer = concat (map (decode_record ?cls ?spec) ?rs)\<rparr>"
    using pos len by (rule decode_concat)
  show ?thesis
    unfolding fetch_def ranges_form
    by (rule exI [of _ fs']) (simp add: mcf buf dec squeeze_def o_def)
qed

lemma bounds_check_passes:
  assumes "\<forall>i \<in> set I. 0 \<le> i \<and> i < N"
  shows "bounds_check I N kind = Inr ()"
proof -
  have "filter (\<lambda>index. index < 0) I = []" "filter (\<lambda>index. index \<ge> N) I = []"
    using assms by (auto simp: filter_empty_conv)
  then show ?thesis by (simp add: bounds_check_def)
qed


subsection \<open>The sign bit\<close>

lemma top_bit_mask:
  fixes W :: "32 word"
  assumes "m = 31"
  shows "push_bit m (drop_bit m W AND 1) = W AND push_bit m 1"
proof (rule bit_word_eqI)
  fix n assume "n < LENGTH(32)"
  then have "m \<le> n \<Longrightarrow> n = m" using assms by simp
  then show "bit (push_bit m (drop_bit m W AND 1)) n = bit (W AND push_bit m 1) n"
    by (auto simp: bit_simps)
qed

lemma sign_bit: "push_bit 31 (drop_bit 31 W AND 1) = W AND (0x80000000 :: 32 word)"
proof -
  have "(0x80000000 :: 32 word) = push_bit 31 1" by simp
  then show ?thesis using top_bit_mask [of 31 W] by (simp only: )
qed

lemma ibm2ieee_zero_fraction:
  assumes "W AND 0x00FFFFFF = 0" shows "ibm2ieee W = W AND 0x80000000"
proof -
  have "ibm2ieee W = push_bit 31 (drop_bit 31 W AND 1)"
    unfolding ibm2ieee_def Let_def by (rule if_P) (rule assms)
  then show ?thesis by (simp only: sign_bit)
qed

lemma ibm2ieee_subnormal_example: "ibm2ieee 0x21100000 = 0x00200000"
proof -
  have hb: "highest_bit 23 (0x100000 :: 32 word) = 20" by (simp add: eval_nat_numeral)
  have rs: "round_shift 8388608 2 = 2097152" by (simp add: round_shift_def)
  have f: "(0x21100000 :: 32 word) AND 0x00FFFFFF = 0x100000" by simp
  have e: "drop_bit 24 (0x21100000 :: 32 word) AND 0x7F = 0x21" by simp
  have s: "drop_bit 31 (0x21100000 :: 32 word) AND 1 = 0" by simp
  show ?thesis
    unfolding ibm2ieee_def Let_def f e s hb by (simp add: rs)
qed

subsection \<open>When the bounds check raises\<close>

lemma bounds_check_raises_iff:
  "(\<exists>msg. bounds_check indices max_value type_name = Inl (IndexError msg))
   \<longleftrightarrow> (\<exists>i \<in> set indices. i < 0 \<or> i \<ge> max_value)"
  by (auto simp: bounds_check_def Let_def filter_empty_conv)

lemma bounds_check_cases:
  "bounds_check indices max_value type_name = Inr ()
   \<or> (\<exists>msg. bounds_check indices max_value type_name = Inl (IndexError msg))"
  by (simp add: bounds_check_def Let_def)

subsection \<open>Heaps, reading and allocation\<close>

lemma keeps_refl: "keeps h h"
  by (simp add: keeps_def)

lemma keeps_trans: "keeps h1 h2 \<Longrightarrow> keeps h2 h3 \<Longrightarrow> keeps h1 h3"
proof -
  assume a: "keeps h1 h2" and b: "keeps h2 h3"
  then have l: "length h1 \<le> length h2" "length h2 \<le> length h3" by (simp_all add: keeps_def)
  have "take (length h1) h3 = take (length h1) (take (length h2) h3)"
    using l by (simp add: min_def)
  also have "\<dots> = take (length h1) h2" using b by (simp add: keeps_def)
  also have "\<dots> = h1" using a by (simp add: keeps_def)
  finally show ?thesis using l by (simp add: keeps_def)
qed

lemma keeps_append: "keeps h (h @ ext)"
  by (simp add: keeps_def)

lemma keeps_update:
  assumes "keeps h h'" and "length h \<le> b"
  shows "keeps h (h'[b := ob])"
  using assms by (simp add: keeps_def)

lemma keeps_mutate:
  assumes "keeps h h'" and "list_all (\<lambda>(b, ob). length h \<le> b) ws"
  shows "keeps h (mutate ws h')"
  using assms unfolding mutate_def
proof (induction ws arbitrary: h')
  case Nil
  then show ?case by simp
next
  case (Cons w ws)
  obtain b ob where w: "w = (b, ob)" by (cases w)
  have "keeps h (h'[b := ob])" using Cons.prems w by (intro keeps_update) simp_all
  then have "keeps h (fold (\<lambda>(b, ob) h. h[b := ob]) ws (h'[b := ob]))"
    using Cons.prems by (intro Cons.IH) simp_all
  then show ?case by (simp add: w)
qed

lemma lookup_keeps:
  assumes "keeps h h'" and "lookup h a = Some ob"
  shows "lookup h' a = Some ob"
proof -
  from assms(2) have a: "a < length h" and ob: "h ! a = ob"
    by (auto simp: lookup_def split: if_splits)
  have "h' ! a = take (length h) h' ! a" using a by simp
  also have "\<dots> = h ! a" using assms(1) by (simp add: keeps_def)
  finally show ?thesis using a ob assms(1) by (simp add: lookup_def keeps_def)
qed

lemma lookup_alloc: "alloc h ob = (a, h') \<Longrightarrow> lookup h' a = Some ob"
  by (auto simp: alloc_def lookup_def)

lemma alloc_keeps: "alloc h ob = (a, h') \<Longrightarrow> keeps h h' \<and> a = length h \<and> length h' = Suc (length h)"
  by (auto simp: alloc_def keeps_def)

lemma read_field_keeps:
  assumes "keeps h h'" and "read_field h a = Some f"
  shows "read_field h' a = Some f"
proof -
  from assms(2) have "lookup h a = Some (FieldObj f)"
    by (auto simp: read_field_def split: option.splits obj.splits)
  then have "lookup h' a = Some (FieldObj f)" by (rule lookup_keeps [OF assms(1)])
  then show ?thesis by (simp add: read_field_def)
qed

lemma read_fields_keeps:
  assumes "keeps h h'" and "read_fields h as = Some fs"
  shows "read_fields h' as = Some fs"
  using assms(2)
proof (induction as arbitrary: fs)
  case Nil
  then show ?case by simp
next
  case (Cons a as)
  from Cons.prems obtain f fs' where f: "read_field h a = Some f"
    and fs': "read_fields h as = Some fs'" and fs: "fs = f # fs'"
    by (auto split: option.splits)
  have "read_field h' a = Some f" using assms(1) f by (rule read_field_keeps)
  moreover have "read_fields h' as = Some fs'" using fs' by (rule Cons.IH)
  ultimately show ?case by (simp add: fs)
qed

lemma read_list_keeps:
  assumes "keeps h h'" and "read_list h a = Some fs"
  shows "read_list h' a = Some fs"
proof -
  from assms(2) obtain as where l: "lookup h a = Some (ListObj as)" and r: "read_fields h as = Some fs"
    by (auto simp: read_list_def split: option.splits obj.splits)
  have "lookup h' a = Some (ListObj as)" using assms(1) l by (rule lookup_keeps)
  moreover have "read_fields h' as = Some fs" using assms(1) r by (rule read_fields_keeps)
  ultimately show ?thesis by (simp add: read_list_def)
qed

lemma read_struct_keeps:
  assumes "keeps h h'" and "read_struct h a = Some d"
  shows "read_struct h' a = Some d"
proof -
  from assms(2) obtain l sz off fs where l: "lookup h a = Some (StructObj l sz off)"
    and r: "read_list h l = Some fs"
    and d: "d = \<lparr>struct_fields = fs, struct_item_size = sz, struct_offset = off\<rparr>"
    by (auto simp: read_struct_def split: option.splits obj.splits)
  have "lookup h' a = Some (StructObj l sz off)" using assms(1) l by (rule lookup_keeps)
  moreover have "read_list h' l = Some fs" using assms(1) r by (rule read_list_keeps)
  ultimately show ?thesis by (simp add: read_struct_def d)
qed

lemma read_text_keeps:
  assumes "keeps h h'" and "read_text h a = Some d"
  shows "read_text h' a = Some d"
proof -
  from assms(2) have "lookup h a = Some (TextObj d)"
    by (auto simp: read_text_def split: option.splits obj.splits)
  then have "lookup h' a = Some (TextObj d)" by (rule lookup_keeps [OF assms(1)])
  then show ?thesis by (simp add: read_text_def)
qed

lemma read_data_keeps:
  assumes "keeps h h'" and "read_data h a = Some d"
  shows "read_data h' a = Some d"
proof -
  from assms(2) have "lookup h a = Some (DataObj d)"
    by (auto simp: read_data_def split: option.splits obj.splits)
  then have "lookup h' a = Some (DataObj d)" by (rule lookup_keeps [OF assms(1)])
  then show ?thesis by (simp add: read_data_def)
qed

lemma read_extended_keeps:
  assumes "keeps h h'" and "read_extended h e = Some d"
  shows "read_extended h' e = Some d"
proof (cases e)
  case None
  then show ?thesis using assms(2) by (simp add: read_extended_def)
next
  case (Some a)
  with assms(2) obtain t where t: "read_text h a = Some t" and d: "d = Some t"
    by (auto simp: read_extended_def split: option.splits)
  have "read_text h' a = Some t" using assms(1) t by (rule read_text_keeps)
  then show ?thesis using Some d by (simp add: read_extended_def)
qed

lemma read_trace_keeps:
  assumes "keeps h h'" and "read_trace h a = Some d"
  shows "read_trace h' a = Some d"
proof -
  from assms(2) obtain hdr dat off x y where l: "lookup h a = Some (TraceObj hdr dat off)"
    and x: "read_struct h hdr = Some x" and y: "read_data h dat = Some y"
    and d: "d = \<lparr>header_descriptor = x, data_descriptor = y, trace_offset = off\<rparr>"
    by (auto simp: read_trace_def split: option.splits obj.splits)
  have "lookup h' a = Some (TraceObj hdr dat off)" using assms(1) l by (rule lookup_keeps)
  moreover have "read_struct h' hdr = Some x" using assms(1) x by (rule read_struct_keeps)
  moreover have "read_data h' dat = Some y" using assms(1) y by (rule read_data_keeps)
  ultimately show ?thesis by (simp add: read_trace_def d)
qed

lemma read_segy_keeps:
  assumes "keeps h h'" and "read_segy h a = Some d"
  shows "read_segy h' a = Some d"
proof -
  from assms(2) obtain std t b e tr t' b' e' tr'
    where l: "lookup h a = Some (SegyObj std t b e tr)"
    and t: "read_text h t = Some t'" and b: "read_struct h b = Some b'"
    and e: "read_extended h e = Some e'" and tr: "read_trace h tr = Some tr'"
    and d: "d = \<lparr>segy_standard = std, text_file_header = t', binary_file_header = b',
                   extended_text_header = e', trace = tr'\<rparr>"
    by (auto simp: read_segy_def split: option.splits obj.splits)
  have "lookup h' a = Some (SegyObj std t b e tr)" using assms(1) l by (rule lookup_keeps)
  moreover have "read_text h' t = Some t'" using assms(1) t by (rule read_text_keeps)
  moreover have "read_struct h' b = Some b'" using assms(1) b by (rule read_struct_keeps)
  moreover have "read_extended h' e = Some e'" using assms(1) e by (rule read_extended_keeps)
  moreover have "read_trace h' tr = Some tr'" using assms(1) tr by (rule read_trace_keeps)
  ultimately show ?thesis by (simp add: read_segy_def d)
qed

lemma keeps_length: "keeps h h' \<Longrightarrow> length h \<le> length h'"
  by (simp add: keeps_def)

lemma lookup_lt: "lookup h a = Some ob \<Longrightarrow> a < length h"
  by (auto simp: lookup_def split: if_splits)

lemma alloc_fields_props:
  assumes "alloc_fields h fs = (as, h')"
  shows "keeps h h'" and "read_fields h' as = Some fs"
    and "list_all (\<lambda>b. length h \<le> b \<and> b < length h') as"
  using assms
proof (induction fs arbitrary: h as h')
  case Nil
  { case 1 then show ?case by (simp add: keeps_refl) }
  { case 2 then show ?case by simp }
  { case 3 then show ?case by simp }
next
  case (Cons f fs)
  { case 1
    then obtain as' where r: "alloc_fields (h @ [FieldObj f]) fs = (as', h')"
      by (auto simp: alloc_def split: prod.splits)
    have "keeps h (h @ [FieldObj f])" by (rule keeps_append)
    then show ?case using Cons.IH(1) [OF r] by (rule keeps_trans) }
  { case 2
    then obtain as' where r: "alloc_fields (h @ [FieldObj f]) fs = (as', h')"
      and as: "as = length h # as'"
      by (auto simp: alloc_def split: prod.splits)
    have "lookup (h @ [FieldObj f]) (length h) = Some (FieldObj f)" by (simp add: lookup_def)
    then have "lookup h' (length h) = Some (FieldObj f)"
      by (rule lookup_keeps [OF Cons.IH(1) [OF r]])
    then have "read_field h' (length h) = Some f" by (simp add: read_field_def)
    then show ?case using Cons.IH(2) [OF r] as by simp }
  { case 3
    then obtain as' where r: "alloc_fields (h @ [FieldObj f]) fs = (as', h')"
      and as: "as = length h # as'"
      by (auto simp: alloc_def split: prod.splits)
    have k: "length (h @ [FieldObj f]) \<le> length h'"
      using Cons.IH(1) [OF r] by (rule keeps_length)
    have "list_all (\<lambda>b. length (h @ [FieldObj f]) \<le> b \<and> b < length h') as'"
      by (rule Cons.IH(3) [OF r])
    then have "list_all (\<lambda>b. length h \<le> b \<and> b < length h') as'"
      by (auto simp: list_all_iff)
    then show ?case using k as by simp }
qed

lemma alloc_struct_props:
  assumes "alloc_struct h d = (a, h')"
  shows "keeps h h'" and "read_struct h' a = Some d"
    and "list_all (\<lambda>b. length h \<le> b) (struct_objects h' a)"
    and "length h \<le> a"
proof -
  obtain as h1 where f: "alloc_fields h (struct_fields d) = (as, h1)"
    by (cases "alloc_fields h (struct_fields d)")
  define h2 where "h2 = h1 @ [ListObj as]"
  have a: "a = length h2" and h': "h' = h2 @ [StructObj (length h1) (struct_item_size d) (struct_offset d)]"
    using assms f by (simp_all add: alloc_struct_def alloc_def h2_def)
  have k1: "keeps h h1" using f by (rule alloc_fields_props(1))
  have k2: "keeps h1 h2" unfolding h2_def by (rule keeps_append)
  have k3: "keeps h2 h'" unfolding h' by (rule keeps_append)
  show "keeps h h'" using k1 k2 k3 by (blast intro: keeps_trans)
  have "read_fields h1 as = Some (struct_fields d)" using f by (rule alloc_fields_props(2))
  then have rf: "read_fields h' as = Some (struct_fields d)"
    using k2 k3 by (blast intro: read_fields_keeps keeps_trans)
  have "lookup h2 (length h1) = Some (ListObj as)" by (simp add: lookup_def h2_def)
  then have ll: "lookup h' (length h1) = Some (ListObj as)" by (rule lookup_keeps [OF k3])
  have la: "lookup h' a = Some (StructObj (length h1) (struct_item_size d) (struct_offset d))"
    by (simp add: lookup_def h' a)
  show "read_struct h' a = Some d"
    by (simp add: read_struct_def la read_list_def ll rf)
  have "list_all (\<lambda>b. length h \<le> b \<and> b < length h1) as" using f by (rule alloc_fields_props(3))
  then have "list_all (\<lambda>b. length h \<le> b) as" by (auto simp: list_all_iff)
  moreover have "length h \<le> length h1" using k1 by (rule keeps_length)
  moreover have "length h1 \<le> length h2" using k2 by (rule keeps_length)
  moreover have ha: "length h \<le> a"
    using \<open>length h \<le> length h1\<close> \<open>length h1 \<le> length h2\<close> a by simp
  ultimately show "list_all (\<lambda>b. length h \<le> b) (struct_objects h' a)"
    by (simp add: struct_objects_def list_objects_def la ll)
  show "length h \<le> a" by (rule ha)
qed

lemma alloc_trace_props:
  assumes "alloc_trace h d = (a, h')"
  shows "keeps h h'" and "read_trace h' a = Some d"
    and "list_all (\<lambda>b. length h \<le> b) (trace_objects h' a)"
    and "length h \<le> a"
proof -
  obtain hdr h1 where s: "alloc_struct h (header_descriptor d) = (hdr, h1)"
    by (cases "alloc_struct h (header_descriptor d)")
  define h2 where "h2 = h1 @ [DataObj (data_descriptor d)]"
  have a: "a = length h2" and h': "h' = h2 @ [TraceObj hdr (length h1) (trace_offset d)]"
    using assms s by (simp_all add: alloc_trace_def alloc_def h2_def)
  have k1: "keeps h h1" using s by (rule alloc_struct_props(1))
  have k2: "keeps h1 h2" unfolding h2_def by (rule keeps_append)
  have k3: "keeps h2 h'" unfolding h' by (rule keeps_append)
  have k13: "keeps h1 h'" using k2 k3 by (rule keeps_trans)
  show "keeps h h'" using k1 k13 by (rule keeps_trans)
  have rs1: "read_struct h1 hdr = Some (header_descriptor d)" using s by (rule alloc_struct_props(2))
  have rs: "read_struct h' hdr = Some (header_descriptor d)"
    using k13 rs1 by (rule read_struct_keeps)
  have "lookup h2 (length h1) = Some (DataObj (data_descriptor d))" by (simp add: lookup_def h2_def)
  then have ld: "lookup h' (length h1) = Some (DataObj (data_descriptor d))"
    by (rule lookup_keeps [OF k3])
  have la: "lookup h' a = Some (TraceObj hdr (length h1) (trace_offset d))"
    by (simp add: lookup_def h' a)
  show "read_trace h' a = Some d"
    by (simp add: read_trace_def la rs read_data_def ld)
  have l1: "length h \<le> length h1" using k1 by (rule keeps_length)
  have l2: "length h1 \<le> length h2" using k2 by (rule keeps_length)
  have so: "struct_objects h' hdr = struct_objects h1 hdr"
  proof -
    from rs1 obtain l sz off fs where x: "lookup h1 hdr = Some (StructObj l sz off)"
      and y: "read_list h1 l = Some fs"
      by (auto simp: read_struct_def split: option.splits obj.splits)
    from y obtain as where z: "lookup h1 l = Some (ListObj as)"
      by (auto simp: read_list_def split: option.splits obj.splits)
    have "lookup h' hdr = Some (StructObj l sz off)" using k13 x by (rule lookup_keeps)
    moreover have "lookup h' l = Some (ListObj as)" using k13 z by (rule lookup_keeps)
    ultimately show ?thesis using x z by (simp add: struct_objects_def list_objects_def)
  qed
  have ha: "length h \<le> a" using l1 l2 a by simp
  have "list_all (\<lambda>b. length h \<le> b) (struct_objects h1 hdr)" using s by (rule alloc_struct_props(3))
  then show "list_all (\<lambda>b. length h \<le> b) (trace_objects h' a)"
    using l1 ha by (simp add: trace_objects_def la so)
  show "length h \<le> a" by (rule ha)
qed

lemma struct_objects_keeps:
  assumes "keeps h h'" and "read_struct h a = Some d"
  shows "struct_objects h' a = struct_objects h a"
proof -
  from assms(2) obtain l sz off fs where x: "lookup h a = Some (StructObj l sz off)"
    and y: "read_list h l = Some fs"
    by (auto simp: read_struct_def split: option.splits obj.splits)
  from y obtain as where z: "lookup h l = Some (ListObj as)"
    by (auto simp: read_list_def split: option.splits obj.splits)
  have "lookup h' a = Some (StructObj l sz off)" using assms(1) x by (rule lookup_keeps)
  moreover have "lookup h' l = Some (ListObj as)" using assms(1) z by (rule lookup_keeps)
  ultimately show ?thesis using x z by (simp add: struct_objects_def list_objects_def)
qed

lemma trace_objects_keeps:
  assumes "keeps h h'" and "read_trace h a = Some d"
  shows "trace_objects h' a = trace_objects h a"
proof -
  from assms(2) obtain hdr dat off x where l: "lookup h a = Some (TraceObj hdr dat off)"
    and x: "read_struct h hdr = Some x"
    by (auto simp: read_trace_def split: option.splits obj.splits)
  have "lookup h' a = Some (TraceObj hdr dat off)" using assms(1) l by (rule lookup_keeps)
  moreover have "struct_objects h' hdr = struct_objects h hdr"
    using assms(1) x by (rule struct_objects_keeps)
  ultimately show ?thesis using l by (simp add: trace_objects_def)
qed

lemma read_fields_in_heap:
  "read_fields h as = Some fs \<Longrightarrow> list_all (\<lambda>b. b < length h) as"
proof (induction as arbitrary: fs)
  case Nil
  show ?case by simp
next
  case (Cons a as)
  from Cons.prems obtain f fs' where f: "read_field h a = Some f"
    and fs': "read_fields h as = Some fs'"
    by (auto split: option.splits)
  from f have "a < length h"
    by (auto simp: read_field_def dest: lookup_lt split: option.splits)
  then show ?case using Cons.IH [OF fs'] by simp
qed

lemma struct_objects_in_heap:
  assumes "read_struct h a = Some d"
  shows "list_all (\<lambda>b. b < length h) (struct_objects h a)"
proof -
  from assms obtain l sz off fs where x: "lookup h a = Some (StructObj l sz off)"
    and y: "read_list h l = Some fs"
    by (auto simp: read_struct_def split: option.splits obj.splits)
  from y obtain as where z: "lookup h l = Some (ListObj as)" and r: "read_fields h as = Some fs"
    by (auto simp: read_list_def split: option.splits obj.splits)
  have "a < length h" "l < length h" using x z by (auto dest: lookup_lt)
  then show ?thesis using x z read_fields_in_heap [OF r]
    by (simp add: struct_objects_def list_objects_def)
qed

lemma trace_objects_in_heap:
  assumes "read_trace h a = Some d"
  shows "list_all (\<lambda>b. b < length h) (trace_objects h a)"
proof -
  from assms obtain hdr dat off x y where l: "lookup h a = Some (TraceObj hdr dat off)"
    and x: "read_struct h hdr = Some x" and y: "read_data h dat = Some y"
    by (auto simp: read_trace_def split: option.splits obj.splits)
  have "a < length h" using l by (rule lookup_lt)
  moreover have "dat < length h" using y
    by (auto simp: read_data_def dest: lookup_lt split: option.splits)
  ultimately show ?thesis using l struct_objects_in_heap [OF x]
    by (simp add: trace_objects_def)
qed

lemma segy_objects_in_heap:
  assumes "read_segy h a = Some d"
  shows "list_all (\<lambda>b. b < length h) (segy_objects h a)"
proof -
  from assms obtain std t b e tr t' b' e' tr'
    where l: "lookup h a = Some (SegyObj std t b e tr)"
    and t: "read_text h t = Some t'" and b: "read_struct h b = Some b'"
    and e: "read_extended h e = Some e'" and tr: "read_trace h tr = Some tr'"
    by (auto simp: read_segy_def split: option.splits obj.splits)
  have "a < length h" using l by (rule lookup_lt)
  moreover have "t < length h" using t
    by (auto simp: read_text_def dest: lookup_lt split: option.splits)
  moreover have "list_all (\<lambda>b. b < length h) (case e of None \<Rightarrow> [] | Some x \<Rightarrow> [x])"
    using e by (auto simp: read_extended_def read_text_def dest: lookup_lt split: option.splits)
  ultimately show ?thesis
    using l struct_objects_in_heap [OF b] trace_objects_in_heap [OF tr]
    by (simp add: segy_objects_def)
qed

lemma alloc_segy_props:
  assumes "alloc_segy h d = (a, h')"
  shows "keeps h h'" and "read_segy h' a = Some d"
    and "list_all (\<lambda>b. length h \<le> b) (segy_objects h' a)"
    and "length h \<le> a"
proof -
  define h1 where "h1 = h @ [TextObj (text_file_header d)]"
  obtain b h2 where sb: "alloc_struct h1 (binary_file_header d) = (b, h2)"
    by (cases "alloc_struct h1 (binary_file_header d)")
  define e where "e = (case extended_text_header d of None \<Rightarrow> None | Some x \<Rightarrow> Some (length h2))"
  define h3 where "h3 = (case extended_text_header d of None \<Rightarrow> h2 | Some x \<Rightarrow> h2 @ [TextObj x])"
  obtain tr h4 where st: "alloc_trace h3 (trace d) = (tr, h4)"
    by (cases "alloc_trace h3 (trace d)")
  have a: "a = length h4" and h': "h' = h4 @ [SegyObj (segy_standard d) (length h) b e tr]"
    using assms sb st
    by (auto simp: alloc_segy_def alloc_def h1_def e_def h3_def split: option.splits)
  have k1: "keeps h h1" unfolding h1_def by (rule keeps_append)
  have k2: "keeps h1 h2" using sb by (rule alloc_struct_props(1))
  have k3: "keeps h2 h3" unfolding h3_def by (auto simp: keeps_refl keeps_append split: option.splits)
  have k4: "keeps h3 h4" using st by (rule alloc_trace_props(1))
  have k5: "keeps h4 h'" unfolding h' by (rule keeps_append)
  have k35: "keeps h3 h'" using k4 k5 by (rule keeps_trans)
  have k25: "keeps h2 h'" using k3 k35 by (rule keeps_trans)
  have k15: "keeps h1 h'" using k2 k25 by (rule keeps_trans)
  show "keeps h h'" using k1 k15 by (rule keeps_trans)
  have l1: "length h < length h1" by (simp add: h1_def)
  have l2: "length h1 \<le> length h2" using k2 by (rule keeps_length)
  have l3: "length h2 \<le> length h3" using k3 by (rule keeps_length)
  have l4: "length h3 \<le> length h4" using k4 by (rule keeps_length)
  have ha: "length h \<le> a" using l1 l2 l3 l4 a by simp
  have "read_text h1 (length h) = Some (text_file_header d)"
    by (simp add: read_text_def lookup_def h1_def)
  then have rt: "read_text h' (length h) = Some (text_file_header d)"
    by (rule read_text_keeps [OF k15])
  have rb2: "read_struct h2 b = Some (binary_file_header d)" using sb by (rule alloc_struct_props(2))
  have rb: "read_struct h' b = Some (binary_file_header d)"
    using k25 rb2 by (rule read_struct_keeps)
  have "read_extended h3 e = Some (extended_text_header d)"
    by (auto simp: read_extended_def read_text_def lookup_def e_def h3_def split: option.splits)
  then have re: "read_extended h' e = Some (extended_text_header d)"
    by (rule read_extended_keeps [OF k35])
  have rtr4: "read_trace h4 tr = Some (trace d)" using st by (rule alloc_trace_props(2))
  have rtr: "read_trace h' tr = Some (trace d)"
    using k5 rtr4 by (rule read_trace_keeps)
  have la: "lookup h' a = Some (SegyObj (segy_standard d) (length h) b e tr)"
    by (simp add: lookup_def h' a)
  show "read_segy h' a = Some d"
    by (simp add: read_segy_def la rt rb re rtr)
  have ob: "list_all (\<lambda>x. length h \<le> x) (struct_objects h' b)"
  proof -
    have "list_all (\<lambda>x. length h1 \<le> x) (struct_objects h2 b)" using sb by (rule alloc_struct_props(3))
    then have "list_all (\<lambda>x. length h \<le> x) (struct_objects h2 b)"
      using l1 by (auto simp: list_all_iff)
    then show ?thesis by (simp only: struct_objects_keeps [OF k25 rb2])
  qed
  have oe: "list_all (\<lambda>x. length h \<le> x) (case e of None \<Rightarrow> [] | Some x \<Rightarrow> [x])"
    using l1 l2 by (auto simp: e_def split: option.splits)
  have ot: "list_all (\<lambda>x. length h \<le> x) (trace_objects h' tr)"
  proof -
    have "list_all (\<lambda>x. length h3 \<le> x) (trace_objects h4 tr)" using st by (rule alloc_trace_props(3))
    then have "list_all (\<lambda>x. length h \<le> x) (trace_objects h4 tr)"
      using l1 l2 l3 by (auto simp: list_all_iff)
    then show ?thesis by (simp only: trace_objects_keeps [OF k5 rtr4])
  qed
  show "list_all (\<lambda>b. length h \<le> b) (segy_objects h' a)"
    using ha ob oe ot by (simp add: segy_objects_def la)
  show "length h \<le> a" by (rule ha)
qed

lemma rev0_stored:
  "st_registry rev0_registered REV0 = Some (fst (alloc_segy [] rev0_segy))"
  "read_segy (st_heap rev0_registered) (fst (alloc_segy [] rev0_segy)) = Some rev0_segy"
proof -
  obtain a h where al: "alloc_segy [] rev0_segy = (a, h)" by (cases "alloc_segy [] rev0_segy")
  show "st_registry rev0_registered REV0 = Some (fst (alloc_segy [] rev0_segy))"
    by (simp add: rev0_registered_def register_spec_def al)
  have "read_segy h a = Some rev0_segy" using al by (rule alloc_segy_props(2))
  then show "read_segy (st_heap rev0_registered) (fst (alloc_segy [] rev0_segy)) = Some rev0_segy"
    by (simp add: rev0_registered_def register_spec_def al)
qed


section \<open>Properties of the Rev0 descriptor\<close>

text \<open>
  C7. In the Rev0 descriptor the binary file header has item size 400 and exactly one field
  named sample_interval, at offset 16, int16, big-endian; the trace header has item size 240
  and exactly one field named src_x, at offset 72, int32, big-endian.
\<close>

theorem rev0_header_scenarios:
  "struct_item_size (binary_file_header rev0_segy) = Some 400
   \<and> map (\<lambda>f. (field_offset f, field_format f, field_endianness f))
        (fields_named ''sample_interval'' (binary_file_header rev0_segy)) = [(16, INT16, BIG)]
   \<and> struct_item_size (header_descriptor (trace rev0_segy)) = Some 240
   \<and> map (\<lambda>f. (field_offset f, field_format f, field_endianness f))
        (fields_named ''src_x'' (header_descriptor (trace rev0_segy))) = [(72, INT32, BIG)]"
  by (simp add: rev0_segy_def rev0_binary_file_header_def rev0_trace_def rev0_trace_header_def
      fields_named_def BINARY_FILE_HEADER_FIELDS_REV0_def TRACE_HEADER_FIELDS_REV0_def field_def)


text \<open>
  C8, as stated, fails on the first count: the Rev0 binary file header has 27 fields, not
  28.
\<close>

theorem rev0_binary_field_count_counterexample:
  "length (struct_fields (binary_file_header rev0_segy)) \<noteq> 28"
  by (simp add: rev0_segy_def rev0_binary_file_header_def BINARY_FILE_HEADER_FIELDS_REV0_def)

text \<open>
  C8, amended. The Rev0 descriptor defines exactly 27 binary-file-header fields and 71
  trace-header fields, all big-endian and with distinct names within their header, each
  at the offset and with the width of the SEG-Y rev 0 layout: the fields lie back to back
  from offset 0, the binary-header fields up to byte 60 and the trace-header fields up to
  byte 180.
\<close>

theorem rev0_field_tables:
  "length (struct_fields (binary_file_header rev0_segy)) = 27
   \<and> length (struct_fields (header_descriptor (trace rev0_segy))) = 71
   \<and> field_layout (struct_fields (binary_file_header rev0_segy)) = packed_from 0 rev0_binary_widths
   \<and> field_layout (struct_fields (header_descriptor (trace rev0_segy))) = packed_from 0 rev0_trace_widths
   \<and> sum_list rev0_binary_widths = 60 \<and> sum_list rev0_trace_widths = 180
   \<and> distinct (map field_name (struct_fields (binary_file_header rev0_segy)))
   \<and> distinct (map field_name (struct_fields (header_descriptor (trace rev0_segy))))
   \<and> list_all (\<lambda>f. field_endianness f = BIG) (struct_fields (binary_file_header rev0_segy))
   \<and> list_all (\<lambda>f. field_endianness f = BIG) (struct_fields (header_descriptor (trace rev0_segy)))"
proof -
  have b: "struct_fields (binary_file_header rev0_segy) = BINARY_FILE_HEADER_FIELDS_REV0"
    and t: "struct_fields (header_descriptor (trace rev0_segy)) = TRACE_HEADER_FIELDS_REV0"
    by (simp_all add: rev0_segy_def rev0_binary_file_header_def rev0_trace_def rev0_trace_header_def)
  have 1: "length BINARY_FILE_HEADER_FIELDS_REV0 = 27"
    by (simp add: BINARY_FILE_HEADER_FIELDS_REV0_def)
  have 2: "length TRACE_HEADER_FIELDS_REV0 = 71"
    by (simp add: TRACE_HEADER_FIELDS_REV0_def)
  have 3: "field_layout BINARY_FILE_HEADER_FIELDS_REV0 = packed_from 0 rev0_binary_widths"
    by code_simp
  have 4: "field_layout TRACE_HEADER_FIELDS_REV0 = packed_from 0 rev0_trace_widths"
    by code_simp
  have 5: "sum_list rev0_binary_widths = 60" "sum_list rev0_trace_widths = 180"
    by (simp_all add: rev0_binary_widths_def rev0_trace_widths_def sum_list_replicate)
  have 6: "distinct (map field_name BINARY_FILE_HEADER_FIELDS_REV0)"
    by code_simp
  have 7: "distinct (map field_name TRACE_HEADER_FIELDS_REV0)"
    by code_simp
  have 8: "list_all (\<lambda>f. field_endianness f = BIG) BINARY_FILE_HEADER_FIELDS_REV0"
    by code_simp
  have 9: "list_all (\<lambda>f. field_endianness f = BIG) TRACE_HEADER_FIELDS_REV0"
    by code_simp
  show ?thesis unfolding b t using 1 2 3 4 5 6 7 8 9 by (simp only: simp_thms)
qed

section \<open>Properties of the indexers\<close>

text \<open>
  C1. For every trace index \<open>i\<close> (in bounds or not), the byte range planned for \<open>i\<close> is
  \<open>[offset + i * stride, offset + i * stride + stride)\<close> for the full-trace indexer,
  \<open>[offset + i * stride, offset + i * stride + header_size)\<close> for the header-only indexer and
  \<open>[offset + i * stride + header_size, offset + i * stride + stride)\<close> for the data-only
  indexer, where \<open>stride = header_size + data_size\<close> is the trace record size and \<open>offset\<close>
  the offset of the first trace.
\<close>

theorem byte_ranges_per_index:
  "indices_to_byte_ranges TraceIndexer spec indices =
     (map (\<lambda>i. int (spec_offset spec) + i * trace_stride spec) indices,
      map (\<lambda>i. int (spec_offset spec) + i * trace_stride spec + trace_stride spec) indices)
   \<and> indices_to_byte_ranges HeaderIndexer spec indices =
     (map (\<lambda>i. int (spec_offset spec) + i * trace_stride spec) indices,
      map (\<lambda>i. int (spec_offset spec) + i * trace_stride spec
                 + int (spec_header_item_size spec)) indices)
   \<and> indices_to_byte_ranges DataIndexer spec indices =
     (map (\<lambda>i. int (spec_offset spec) + i * trace_stride spec
                 + int (spec_header_item_size spec)) indices,
      map (\<lambda>i. int (spec_offset spec) + i * trace_stride spec + trace_stride spec) indices)"
  by (simp add: trace_stride_def trace_dtype_def header_dtype_def data_dtype_def Let_def
      algebra_simps)

text \<open>
  C2, as stated, fails: the ranges are sorted and merged before they are fetched and the
  buffer is decoded in that order, so for the list \<open>[1, 0]\<close> the array holds the record
  of trace 0 at position 0 and that of trace 1 at position 1, as for \<open>[0, 1]\<close>. A list of
  one index returns the record without an array axis, and an indexer built without
  \<^verbatim>\<open>postprocess_kwargs\<close> raises an AttributeError in its post-processing.
\<close>

theorem list_order_counterexample:
  "fetched_item (example_indexer TraceIndexer) example_fs [1, 0] 0
     = Some [5, 4, 9, 8, 7, 6, 10, 11, 15, 14, 13, 12]
   \<and> fetched_buffer (example_indexer TraceIndexer) example_fs [1]
     = Some [17, 16, 21, 20, 19, 18, 22, 23, 27, 26, 25, 24]
   \<and> fetched_buffer (example_indexer TraceIndexer) example_fs [0]
     = Some [5, 4, 9, 8, 7, 6, 10, 11, 15, 14, 13, 12]
   \<and> fst (getitem (example_indexer TraceIndexer) example_fs (ListItem [1, 0]))
     = Inr (NDArray
         \<lparr>nd_dtype = TraceDtype (HeaderDtype [(''a'', 0, INT16, LittleEndian),
                                                (''b'', 2, INT32, LittleEndian)] 8)
                                  (DataDtype INT32 LittleEndian 1),
          nd_shape = [2],
          nd_buffer = [5, 4, 9, 8, 7, 6, 10, 11, 15, 14, 13, 12,
                       17, 16, 21, 20, 19, 18, 22, 23, 27, 26, 25, 24]\<rparr>)
   \<and> decode TraceIndexer example_spec (trace_region TraceIndexer example_spec example_content 1)
     = Inr \<lparr>nd_dtype = TraceDtype (HeaderDtype [(''a'', 0, INT16, LittleEndian),
                                                  (''b'', 2, INT32, LittleEndian)] 8)
                                    (DataDtype INT32 LittleEndian 1),
            nd_shape = [1],
            nd_buffer = [17, 16, 21, 20, 19, 18, 22, 23, 27, 26, 25, 24]\<rparr>
   \<and> fetched_shape (example_indexer TraceIndexer) example_fs [1] = Some []
   \<and> fst (getitem ((example_indexer TraceIndexer)\<lparr>idx_postprocess_kwargs := None\<rparr>) example_fs
             (ListItem [0, 1]))
     = Inl (AttributeError ''NoneType object has no attribute get'')"
  by code_simp

text \<open>
  C2, amended. For every strictly increasing list \<open>I\<close> of at least two in-bounds trace
  indices, over a file that holds all its traces, with records of non-zero size and an
  indexer whose post-processing hands the array on (the data-only indexer, or
  \<^verbatim>\<open>postprocess_kwargs\<close> given without a true \<^verbatim>\<open>pandas_headers\<close>), indexing with \<open>I\<close> returns an
  array of length \<open>len(I)\<close> (and \<open>len(I)\<close> records of bytes) whose element at position \<open>k\<close>
  is the decoded record of trace \<open>I[k]\<close>: what the indexer's \<^verbatim>\<open>decode\<close> makes of the bytes
  of the file in the byte range of trace \<open>I[k]\<close>.
\<close>

theorem list_indexing_increasing:
  assumes files: "map_of (fs_files fs) (idx_url self) = Some content"
    and enough: "int (spec_offset (idx_spec self)) + idx_max_value self * trace_stride (idx_spec self)
                 \<le> int (length content)"
    and pos: "0 < itemsize (region_dtype (idx_class self) (idx_spec self))"
    and plain: "returns_array self"
    and inc: "sorted_wrt (<) I"
    and inb: "\<forall>i \<in> set I. 0 \<le> i \<and> i < idx_max_value self"
    and two: "2 \<le> length I"
  shows "\<exists>a fs'. getitem self fs (ListItem I) = (Inr (NDArray a), fs')
           \<and> nd_dtype a = decoded_dtype (idx_class self) (idx_spec self)
           \<and> nd_shape a
               = length I # filter (\<lambda>d. d \<noteq> 1) (decoded_axes (idx_class self) (idx_spec self))
           \<and> length (nd_buffer a) = length I * itemsize (nd_dtype a)
           \<and> (\<forall>k<length I.
                 decode (idx_class self) (idx_spec self)
                   (trace_region (idx_class self) (idx_spec self) content (I ! k))
                 = Inr \<lparr>nd_dtype = nd_dtype a,
                        nd_shape = 1 # decoded_axes (idx_class self) (idx_spec self),
                        nd_buffer = nd_item a k\<rparr>)"
proof -
  let ?cls = "idx_class self" and ?spec = "idx_spec self"
  let ?reg = "trace_region ?cls ?spec content"
  let ?dr = "\<lambda>i. decode_record ?cls ?spec (?reg i)"
  let ?a = "\<lparr>nd_dtype = decoded_dtype ?cls ?spec,
             nd_shape = filter (\<lambda>d. d \<noteq> 1) (length I # decoded_axes ?cls ?spec),
             nd_buffer = concat (map ?dr I)\<rparr>"
  have g: "getitem self fs (ListItem I) = fetch_and_post_process self fs I"
    using bounds_check_passes [OF inb] by (simp add: getitem_def item_indices_def)
  from fetch_increasing [OF files enough pos inc inb]
  obtain fs' where f: "fetch self fs I = (Inr ?a, fs')" by blast
  have pp: "post_process ?cls (idx_postprocess_kwargs self) ?a = Inr (NDArray ?a)"
    using plain by (cases ?cls) (auto simp: returns_array_def)
  have res: "getitem self fs (ListItem I) = (Inr (NDArray ?a), fs')"
    unfolding g fetch_and_post_process_def f using pp by simp
  have shape: "nd_shape ?a = length I # filter (\<lambda>d. d \<noteq> 1) (decoded_axes ?cls ?spec)"
    using two by simp
  have rlen: "length (?reg i) = itemsize (region_dtype ?cls ?spec)"
    if "i \<in> set I" for i
    using that inb region_length [OF enough] by (auto simp: trace_region_eq)
  have len: "\<forall>r \<in> set (map ?dr I). length r = itemsize (region_dtype ?cls ?spec)"
    using rlen by (auto intro!: length_decode_record)
  have blen: "length (nd_buffer ?a) = length I * itemsize (nd_dtype ?a)"
    using length_concat_uniform [OF len] by (simp add: itemsize_decoded)
  have items: "decode ?cls ?spec (?reg (I ! k))
               = Inr \<lparr>nd_dtype = nd_dtype ?a, nd_shape = 1 # decoded_axes ?cls ?spec,
                      nd_buffer = nd_item ?a k\<rparr>"
    if k: "k < length I" for k
  proof -
    have "nd_item ?a k = map ?dr I ! k"
      unfolding nd_item_def using len k
      by (simp add: itemsize_decoded nth_chunk_concat del: nth_map)
    then have it: "nd_item ?a k = ?dr (I ! k)" using k by simp
    have "\<forall>r \<in> set [?reg (I ! k)]. length r = itemsize (region_dtype ?cls ?spec)"
      using rlen k by simp
    from decode_concat [OF pos this]
    have d: "decode ?cls ?spec (?reg (I ! k))
             = Inr \<lparr>nd_dtype = decoded_dtype ?cls ?spec, nd_shape = 1 # decoded_axes ?cls ?spec,
                    nd_buffer = ?dr (I ! k)\<rparr>"
      by simp
    show ?thesis unfolding it by (simp add: d)
  qed
  show ?thesis
    using res shape blen items by (intro exI [of _ ?a] exI [of _ fs']) simp
qed

theorem list_indexing_increasing_witness:
  "map_of (fs_files example_fs) (idx_url (example_indexer TraceIndexer)) = Some example_content
   \<and> returns_array (example_indexer TraceIndexer)
   \<and> sorted_wrt (<) [0, 2 :: int]
   \<and> (\<exists>a fs'. getitem (example_indexer TraceIndexer) example_fs (ListItem [0, 2])
                   = (Inr (NDArray a), fs')
         \<and> nd_shape a = [2]
         \<and> nd_item a 0 = [5, 4, 9, 8, 7, 6, 10, 11, 15, 14, 13, 12]
         \<and> nd_item a 1 = [29, 28, 33, 32, 31, 30, 34, 35, 39, 38, 37, 36]
         \<and> (\<forall>k<length [0, 2 :: int].
               decode TraceIndexer example_spec
                 (trace_region TraceIndexer example_spec example_content ([0, 2] ! k))
               = Inr \<lparr>nd_dtype = nd_dtype a, nd_shape = [1], nd_buffer = nd_item a k\<rparr>))"
proof -
  have files: "map_of (fs_files example_fs) (idx_url (example_indexer TraceIndexer)) = Some example_content"
    by (simp add: example_fs_def example_indexer_def)
  have enough: "int (spec_offset (idx_spec (example_indexer TraceIndexer)))
                + idx_max_value (example_indexer TraceIndexer)
                  * trace_stride (idx_spec (example_indexer TraceIndexer))
                \<le> int (length example_content)"
    by (simp add: example_indexer_def example_spec_def example_content_def trace_stride_def)
  have pos: "0 < itemsize (region_dtype (idx_class (example_indexer TraceIndexer))
                             (idx_spec (example_indexer TraceIndexer)))"
    by (simp add: example_indexer_def example_spec_def trace_dtype_def header_dtype_def data_dtype_def)
  have plain: "returns_array (example_indexer TraceIndexer)"
    by (simp add: returns_array_def example_indexer_def using_pandas_def)
  have inc: "sorted_wrt (<) [0, 2 :: int]" by simp
  have inb: "\<forall>i \<in> set [0, 2 :: int]. 0 \<le> i \<and> i < idx_max_value (example_indexer TraceIndexer)"
    by (simp add: example_indexer_def)
  have two: "2 \<le> length [0, 2 :: int]" by simp
  have cls: "idx_class (example_indexer TraceIndexer) = TraceIndexer"
    and spec: "idx_spec (example_indexer TraceIndexer) = example_spec"
    by (simp_all add: example_indexer_def)
  have r0: "decode TraceIndexer example_spec (trace_region TraceIndexer example_spec example_content 0)
     = Inr \<lparr>nd_dtype = TraceDtype (HeaderDtype [(''a'', 0, INT16, LittleEndian),
                                                  (''b'', 2, INT32, LittleEndian)] 8)
                                    (DataDtype INT32 LittleEndian 1),
            nd_shape = [1],
            nd_buffer = [5, 4, 9, 8, 7, 6, 10, 11, 15, 14, 13, 12]\<rparr>"
    by code_simp
  have r2: "decode TraceIndexer example_spec (trace_region TraceIndexer example_spec example_content 2)
     = Inr \<lparr>nd_dtype = TraceDtype (HeaderDtype [(''a'', 0, INT16, LittleEndian),
                                                  (''b'', 2, INT32, LittleEndian)] 8)
                                    (DataDtype INT32 LittleEndian 1),
            nd_shape = [1],
            nd_buffer = [29, 28, 33, 32, 31, 30, 34, 35, 39, 38, 37, 36]\<rparr>"
    by code_simp
  have ax: "decoded_axes TraceIndexer example_spec = []" by simp
  from list_indexing_increasing [OF files enough pos plain inc inb two]
  obtain a fs' where g: "getitem (example_indexer TraceIndexer) example_fs (ListItem [0, 2])
                       = (Inr (NDArray a), fs')"
    and sh: "nd_shape a = length [0, 2 :: int] # filter (\<lambda>d. d \<noteq> 1) (decoded_axes TraceIndexer example_spec)"
    and it: "\<forall>k<length [0, 2 :: int].
               decode TraceIndexer example_spec
                 (trace_region TraceIndexer example_spec example_content ([0, 2] ! k))
               = Inr \<lparr>nd_dtype = nd_dtype a, nd_shape = 1 # decoded_axes TraceIndexer example_spec,
                      nd_buffer = nd_item a k\<rparr>"
    unfolding cls spec by blast
  have sh2: "nd_shape a = [2]" using sh by simp
  have it': "\<forall>k<length [0, 2 :: int].
               decode TraceIndexer example_spec
                 (trace_region TraceIndexer example_spec example_content ([0, 2] ! k))
               = Inr \<lparr>nd_dtype = nd_dtype a, nd_shape = [1], nd_buffer = nd_item a k\<rparr>"
    using it by (simp only: ax)
  have i0: "nd_item a 0 = [5, 4, 9, 8, 7, 6, 10, 11, 15, 14, 13, 12]"
    using it' [rule_format, of 0] r0 by simp
  have i1: "nd_item a 1 = [29, 28, 33, 32, 31, 30, 34, 35, 39, 38, 37, 36]"
    using it' [rule_format, of 1] r2 by simp
  show ?thesis
    using files plain inc g sh2 i0 i1 it' by blast
qed

text \<open>
  C3 (the range named in the message). The check raises exactly when an index is negative
  or not below the trace count, and it names every such index, but the range it prints is
  \<open>[0, max - 1)\<close>: for three traces the message says \<open>[0, 2)\<close>, while index 2 passes the
  check.
\<close>

theorem bounds_check_message_range:
  "bounds_check [3] 3 ''trace''
     = Inl (IndexError
         ''Requested trace indices [3] are out of bounds. SEG-Y file has 3 traces. Valid indices are [0, 2).'')
   \<and> bounds_check [2] 3 ''trace'' = Inr ()"
  by (simp add: bounds_check_def str_int_list_def str_int_def)

text \<open>
  C4, as stated, fails for a slice whose stop is 0: \<^verbatim>\<open>item.stop or self.max_value\<close> takes the
  trace count in its place, so the check is applied to \<open>max - 1\<close> and not to \<open>stop - 1 = -1\<close>,
  which the check rejects; the slice \<open>0:0\<close> is answered with an empty array.
\<close>

theorem slice_zero_stop_counterexample:
  "fst (getitem (example_indexer DataIndexer) example_fs (SliceItem (Some 0) (Some 0) None))
     = Inr (NDArray \<lparr>nd_dtype = DataDtype INT32 LittleEndian 1, nd_shape = [0], nd_buffer = []\<rparr>)
   \<and> bounds_check [0, 0 - 1] 3 ''trace''
     = Inl (IndexError
         ''Requested trace indices [-1] are out of bounds. SEG-Y file has 3 traces. Valid indices are [0, 2).'')"
  by code_simp

text \<open>
  C4, amended. Indexing with a slice whose step is 0 raises the ValueError
  "Step of 0 is invalid for slicing." and fetches nothing; for every other slice whose stop
  is not 0, an omitted start counts as 0 and an omitted stop as the trace count, the
  bounds check is applied to start and to stop - 1, its error is raised without a fetch,
  and when it passes the indices of the slice are fetched.
\<close>

theorem slice_step_and_bounds:
  "getitem self fs (SliceItem item_start item_stop (Some 0))
     = (Inl (ValueError ''Step of 0 is invalid for slicing.''), fs)
   \<and> (item_step \<noteq> Some 0 \<and> item_stop \<noteq> Some 0 \<longrightarrow>
        getitem self fs (SliceItem item_start item_stop item_step)
          = (case bounds_check
                    [case item_start of None \<Rightarrow> 0 | Some v \<Rightarrow> v,
                     (case item_stop of None \<Rightarrow> idx_max_value self | Some v \<Rightarrow> v) - 1]
                    (idx_max_value self) (idx_kind self) of
               Inl err \<Rightarrow> (Inl err, fs)
             | Inr _ \<Rightarrow>
                 (case slice_indices item_start item_stop item_step (idx_max_value self) of
                    Inl err \<Rightarrow> (Inl err, fs)
                  | Inr (a, b, c) \<Rightarrow> fetch_and_post_process self fs (py_range a b c))))"
  by (auto simp: getitem_def item_indices_def py_or_def Let_def split: option.splits sum.splits)

theorem slice_step_and_bounds_witness:
  "Some 2 \<noteq> Some (0 :: int) \<and> Some 5 \<noteq> Some (0 :: int)
   \<and> getitem (example_indexer DataIndexer) example_fs (SliceItem None None (Some 2))
       = fetch_and_post_process (example_indexer DataIndexer) example_fs [0, 2]
   \<and> getitem (example_indexer DataIndexer) example_fs (SliceItem (Some 1) (Some 5) (Some 2))
       = (Inl (IndexError
           ''Requested trace indices [4] are out of bounds. SEG-Y file has 3 traces. Valid indices are [0, 2).''),
          example_fs)"
proof -
  have a: "bounds_check [0, 3 - 1] 3 ''trace'' = Inr ()"
    by (simp add: bounds_check_def)
  have b: "slice_indices None None (Some 2) 3 = Inr (0, 3, 2)"
    by (simp add: slice_indices_def)
  have c: "py_range 0 3 2 = [0, 2]"
    by (simp add: py_range_def upt_conv_Cons)
  have d: "bounds_check [1, 5 - 1] 3 ''trace''
     = Inl (IndexError
         ''Requested trace indices [4] are out of bounds. SEG-Y file has 3 traces. Valid indices are [0, 2).'')"
    by (simp add: bounds_check_def str_int_list_def str_int_def)
  have "getitem (example_indexer DataIndexer) example_fs (SliceItem None None (Some 2))
          = fetch_and_post_process (example_indexer DataIndexer) example_fs [0, 2]"
    using slice_step_and_bounds [of "example_indexer DataIndexer" example_fs None None "Some 2"] a b c
    by (simp add: example_indexer_def)
  moreover have "getitem (example_indexer DataIndexer) example_fs (SliceItem (Some 1) (Some 5) (Some 2))
       = (Inl (IndexError
           ''Requested trace indices [4] are out of bounds. SEG-Y file has 3 traces. Valid indices are [0, 2).''),
          example_fs)"
    using slice_step_and_bounds [of "example_indexer DataIndexer" example_fs "Some 1" "Some 5" "Some 2"] d
    by (simp add: example_indexer_def)
  ultimately show ?thesis by simp
qed

text \<open>
  C5. For a well-formed array of trace records whose data format is ibm32, the in-place
  conversion leaves the header block of every record as it is and replaces the data block
  by its converted words; the result has the same shape and the same number of bytes, and
  its type differs only in the data field, which is float32, so the record width is the
  same.
\<close>

theorem ibm2ieee_inplace_frame:
  assumes dt: "nd_dtype t = TraceDtype hdt (DataDtype IBM32 order n)"
    and wf: "length (nd_buffer t) mod itemsize (nd_dtype t) = 0"
  shows "get_header (trace_ibm2ieee_inplace t) = get_header t
     \<and> chunks (itemsize (nd_dtype t)) (nd_buffer (trace_ibm2ieee_inplace t))
         = map (\<lambda>r. take (itemsize hdt) r @ convert_data_block order (drop (itemsize hdt) r))
             (chunks (itemsize (nd_dtype t)) (nd_buffer t))
     \<and> nd_dtype (trace_ibm2ieee_inplace t) = TraceDtype hdt (DataDtype FLOAT32 native n)
     \<and> itemsize (nd_dtype (trace_ibm2ieee_inplace t)) = itemsize (nd_dtype t)
     \<and> length (nd_buffer (trace_ibm2ieee_inplace t)) = length (nd_buffer t)
     \<and> nd_shape (trace_ibm2ieee_inplace t) = nd_shape t"
proof -
  let ?sz = "itemsize (nd_dtype t)"
  let ?out = "trace_ibm2ieee_inplace t"
  let ?f = "\<lambda>r. take (itemsize hdt) r @ convert_data_block order (drop (itemsize hdt) r)"
  have sz: "?sz = itemsize hdt + 4 * n" using dt by simp
  have ty: "nd_dtype ?out = TraceDtype hdt (DataDtype FLOAT32 native n)"
    using dt by (simp add: trace_ibm2ieee_inplace_def)
  have sz': "itemsize (nd_dtype ?out) = ?sz"
    unfolding ty sz by simp
  have sh: "nd_shape ?out = nd_shape t"
    using dt by (simp add: trace_ibm2ieee_inplace_def)
  have buf: "nd_buffer ?out = concat (map ?f (chunks ?sz (nd_buffer t)))"
    using dt by (simp add: trace_ibm2ieee_inplace_def)
  have ch: "chunks ?sz (nd_buffer ?out) = map ?f (chunks ?sz (nd_buffer t))"
  proof (cases "?sz = 0")
    case True
    then show ?thesis by (simp add: chunks_def)
  next
    case False
    then have "0 < ?sz" by simp
    with dt show ?thesis by (rule chunks_of_converted)
  qed
  have len: "\<And>r. r \<in> set (chunks ?sz (nd_buffer t)) \<Longrightarrow> length r = itemsize hdt + 4 * n"
    using chunks_elem_length sz by metis
  have "map (take (itemsize hdt)) (map ?f (chunks ?sz (nd_buffer t)))
        = map (take (itemsize hdt)) (chunks ?sz (nd_buffer t))"
    unfolding map_map o_def
    by (rule map_cong [OF refl]) (rule converted_record(2), rule len)
  then have "concat (map (take (itemsize hdt)) (chunks ?sz (nd_buffer ?out)))
        = concat (map (take (itemsize hdt)) (chunks ?sz (nd_buffer t)))"
    by (simp only: ch)
  then have hd: "get_header ?out = get_header t"
    unfolding get_header_def sz' [unfolded ty] ty sh
    using dt by simp
  have ln: "length (nd_buffer ?out) = length (nd_buffer t)"
    unfolding buf
  proof (rule length_concat_map_chunks [OF _ wf])
    fix c :: "byte list" assume "length c = ?sz"
    then have "length c = itemsize hdt + 4 * n" by (simp only: sz)
    then show "length (?f c) = ?sz" unfolding sz by (rule converted_record(1))
  qed
  show ?thesis using hd ch ty sz' ln sh by simp
qed

theorem ibm2ieee_inplace_frame_witness:
  "nd_dtype example_ibm_trace
     = TraceDtype (HeaderDtype [(''a'', 0, INT16, LittleEndian)] 2) (DataDtype IBM32 LittleEndian 1)
   \<and> length (nd_buffer example_ibm_trace) mod itemsize (nd_dtype example_ibm_trace) = 0
   \<and> get_header (trace_ibm2ieee_inplace example_ibm_trace) = get_header example_ibm_trace
   \<and> nd_buffer (trace_ibm2ieee_inplace example_ibm_trace)
       = [1, 2, 0, 0, 0x80, 0x3F, 3, 4, 0, 0, 0, 0xC1]
   \<and> nd_dtype (trace_ibm2ieee_inplace example_ibm_trace)
       = TraceDtype (HeaderDtype [(''a'', 0, INT16, LittleEndian)] 2) (DataDtype FLOAT32 native 1)"
proof -
  have dt: "nd_dtype example_ibm_trace
     = TraceDtype (HeaderDtype [(''a'', 0, INT16, LittleEndian)] 2) (DataDtype IBM32 LittleEndian 1)"
    by (simp add: example_ibm_trace_def)
  have wf: "length (nd_buffer example_ibm_trace) mod itemsize (nd_dtype example_ibm_trace) = 0"
    by (simp add: example_ibm_trace_def)
  have buf: "nd_buffer (trace_ibm2ieee_inplace example_ibm_trace)
       = [1, 2, 0, 0, 0x80, 0x3F, 3, 4, 0, 0, 0, 0xC1]"
    by code_simp
  from ibm2ieee_inplace_frame [OF dt wf] dt wf buf show ?thesis by simp
qed

text \<open>
  C6, as stated, fails on its first two words: the IBM word \<open>0x42080000\<close> has exponent
  \<open>0x42 - 64 = 2\<close> and fraction \<open>0x080000 / 2^24 = 1/32\<close>, so it stands for
  \<open>16^2 / 32 = 8\<close>, not for \<open>0.5\<close>.
\<close>

theorem ibm2ieee_half_counterexample:
  "float32_value (ibm2ieee 0x42080000) \<noteq> 1 / 2"
proof -
  have "ibm2ieee 0x42080000 = 0x41000000" by code_simp
  then show ?thesis by (simp add: float32_value_def)
qed

text \<open>
  C6, amended. The conversion gives \<open>8.0\<close> for the word \<open>0x42080000\<close>, \<open>-8.0\<close> for
  \<open>0xC2080000\<close>, \<open>0.0\<close> for \<open>0x00000000\<close> and \<open>1.0\<close> for \<open>0x41100000\<close>; and for every
  word whose low 24 fraction bits are all zero the result is a zero whose sign is bit 31
  of the word (every other bit of the result is clear).
\<close>

theorem ibm2ieee_scenarios:
  "ibm2ieee 0x42080000 = 0x41000000 \<and> float32_value (ibm2ieee 0x42080000) = 8
   \<and> ibm2ieee 0xC2080000 = 0xC1000000 \<and> float32_value (ibm2ieee 0xC2080000) = - 8
   \<and> ibm2ieee 0x00000000 = 0x00000000 \<and> float32_value (ibm2ieee 0x00000000) = 0
   \<and> ibm2ieee 0x41100000 = 0x3F800000 \<and> float32_value (ibm2ieee 0x41100000) = 1
   \<and> (W AND 0x00FFFFFF = 0 \<longrightarrow>
        ibm2ieee W = W AND 0x80000000 \<and> float32_value (ibm2ieee W) = 0)"
proof -
  have a: "ibm2ieee 0x42080000 = 0x41000000" by code_simp
  have b: "ibm2ieee 0xC2080000 = 0xC1000000" by code_simp
  have c: "ibm2ieee 0x00000000 = 0x00000000" by code_simp
  have d: "ibm2ieee 0x41100000 = 0x3F800000" by code_simp
  have z: "float32_value (V AND 0x80000000) = 0" for V :: "32 word"
  proof -
    have "drop_bit 31 V AND 1 = 0 \<or> drop_bit 31 V AND 1 = 1"
      by (cases "odd (drop_bit 31 V)") (simp_all add: and_one_eq mod_2_eq_odd)
    then have "V AND 0x80000000 = 0 \<or> V AND 0x80000000 = 0x80000000"
    proof
      assume a: "drop_bit 31 V AND 1 = 0"
      have "V AND 0x80000000 = push_bit 31 (drop_bit 31 V AND 1)" by (rule sign_bit [symmetric])
      also have "\<dots> = push_bit 31 0" by (simp only: a)
      finally show ?thesis by simp
    next
      assume a: "drop_bit 31 V AND 1 = 1"
      have "V AND 0x80000000 = push_bit 31 (drop_bit 31 V AND 1)" by (rule sign_bit [symmetric])
      also have "\<dots> = push_bit 31 1" by (simp only: a)
      finally show ?thesis by simp
    qed
    moreover have "float32_value 0 = 0" "float32_value 0x80000000 = 0"
      by (simp_all add: float32_value_def)
    ultimately show ?thesis by (elim disjE) (simp_all only: )
  qed
  have e: "W AND 0x00FFFFFF = 0 \<longrightarrow> ibm2ieee W = W AND 0x80000000 \<and> float32_value (ibm2ieee W) = 0"
    using ibm2ieee_zero_fraction [of W] z [of W] by simp
  have v: "float32_value 0x41000000 = 8" "float32_value 0xC1000000 = - 8"
    "float32_value 0x00000000 = 0" "float32_value 0x3F800000 = 1"
    by (simp_all add: float32_value_def)
  show ?thesis
    unfolding a b c d using e v by (simp only: simp_thms)
qed

theorem ibm2ieee_scenarios_witness:
  "(0xC2000000 :: 32 word) AND 0x00FFFFFF = 0 \<and> ibm2ieee 0xC2000000 = 0x80000000"
proof -
  have h: "(0xC2000000 :: 32 word) AND 0x00FFFFFF = 0" by simp
  from ibm2ieee_scenarios [of "0xC2000000"] h show ?thesis by simp
qed

text \<open>
  C10. For an index argument that is neither an int, a list nor a slice, \<^verbatim>\<open>__getitem__\<close>
  raises a TypeError whose message names the type, and the file system is returned as it
  was: no byte range has been requested.
\<close>

theorem invalid_index_type:
  "getitem self fs (OtherItem type_name)
     = (Inl (TypeError (''Invalid index type '' @ type_name)), fs)"
  by (simp add: getitem_def item_indices_def)


section \<open>Properties of the registry\<close>

text \<open>
  C9. For every registered standard whose descriptor is in the heap, \<^verbatim>\<open>get_spec\<close> returns
  a new object, distinct from the stored one, whose value equals the stored descriptor's;
  every object the copy consists of is new, none of them is an object of the stored
  descriptor, and the registry is unchanged. Whatever is then written to the objects of
  the copy (or to any object created after the call), the stored descriptor keeps its
  value, and a subsequent \<^verbatim>\<open>get_spec\<close> returns a descriptor of that same value.
\<close>

theorem get_spec_deep_copy:
  assumes reg: "st_registry st standard = Some stored"
    and rd: "read_segy (st_heap st) stored = Some d"
  shows "\<exists>copy st'. get_spec st standard = Inr (copy, st')
      \<and> copy \<noteq> stored
      \<and> st_registry st' = st_registry st
      \<and> read_segy (st_heap st') copy = Some d
      \<and> list_all (\<lambda>b. length (st_heap st) \<le> b) (segy_objects (st_heap st') copy)
      \<and> list_all (\<lambda>b. b < length (st_heap st)) (segy_objects (st_heap st) stored)
      \<and> (\<forall>ws. list_all (\<lambda>(b, ob). length (st_heap st) \<le> b) ws \<longrightarrow>
            read_segy (mutate ws (st_heap st')) stored = Some d
            \<and> (\<exists>copy2 st2.
                  get_spec (st'\<lparr>st_heap := mutate ws (st_heap st')\<rparr>) standard = Inr (copy2, st2)
                  \<and> read_segy (st_heap st2) copy2 = Some d))"
proof -
  let ?h = "st_heap st"
  obtain copy h' where al: "alloc_segy ?h d = (copy, h')" by (cases "alloc_segy ?h d")
  let ?st' = "st\<lparr>st_heap := h'\<rparr>"
  have g: "get_spec st standard = Inr (copy, ?st')"
    by (simp add: get_spec_def reg model_copy_deep_def rd al)
  have k: "keeps ?h h'" using al by (rule alloc_segy_props(1))
  have rc: "read_segy h' copy = Some d" using al by (rule alloc_segy_props(2))
  have fresh: "list_all (\<lambda>b. length ?h \<le> b) (segy_objects h' copy)"
    using al by (rule alloc_segy_props(3))
  have old: "list_all (\<lambda>b. b < length ?h) (segy_objects ?h stored)"
    using rd by (rule segy_objects_in_heap)
  have "stored < length ?h" using old by (simp add: segy_objects_def)
  moreover have "length ?h \<le> copy" using al by (rule alloc_segy_props(4))
  ultimately have ne: "copy \<noteq> stored" by simp
  have iso: "read_segy (mutate ws h') stored = Some d
             \<and> (\<exists>copy2 st2.
                  get_spec (?st'\<lparr>st_heap := mutate ws (st_heap ?st')\<rparr>) standard = Inr (copy2, st2)
                  \<and> read_segy (st_heap st2) copy2 = Some d)"
    if ws: "list_all (\<lambda>(b, ob). length ?h \<le> b) ws" for ws
  proof -
    let ?m = "mutate ws h'"
    have km: "keeps ?h ?m" using k ws by (rule keeps_mutate)
    have rm: "read_segy ?m stored = Some d" using km rd by (rule read_segy_keeps)
    obtain copy2 h2 where al2: "alloc_segy ?m d = (copy2, h2)" by (cases "alloc_segy ?m d")
    have "get_spec (?st'\<lparr>st_heap := mutate ws (st_heap ?st')\<rparr>) standard
          = Inr (copy2, ?st'\<lparr>st_heap := h2\<rparr>)"
      by (simp add: get_spec_def reg model_copy_deep_def rm al2)
    moreover have "read_segy h2 copy2 = Some d" using al2 by (rule alloc_segy_props(2))
    ultimately show ?thesis using rm by simp
  qed
  show ?thesis
    using g ne rc fresh old iso by (intro exI [of _ copy] exI [of _ ?st']) simp
qed


theorem get_spec_deep_copy_witness:
  "st_registry rev0_registered REV0 = Some (fst (alloc_segy [] rev0_segy))
   \<and> read_segy (st_heap rev0_registered) (fst (alloc_segy [] rev0_segy)) = Some rev0_segy
   \<and> (\<exists>copy st'. get_spec rev0_registered REV0 = Inr (copy, st')
          \<and> copy \<noteq> fst (alloc_segy [] rev0_segy)
          \<and> read_segy (st_heap st') copy = Some rev0_segy
          \<and> read_segy (mutate [(copy, ListObj [])] (st_heap st')) (fst (alloc_segy [] rev0_segy))
              = Some rev0_segy)"
proof -
  let ?stored = "fst (alloc_segy [] rev0_segy)"
  from get_spec_deep_copy [OF rev0_stored]
  obtain copy st' where g: "get_spec rev0_registered REV0 = Inr (copy, st')"
    and ne: "copy \<noteq> ?stored"
    and rc: "read_segy (st_heap st') copy = Some rev0_segy"
    and fresh: "list_all (\<lambda>b. length (st_heap rev0_registered) \<le> b) (segy_objects (st_heap st') copy)"
    and iso: "\<And>ws. list_all (\<lambda>(b, ob). length (st_heap rev0_registered) \<le> b) ws \<Longrightarrow>
            read_segy (mutate ws (st_heap st')) ?stored = Some rev0_segy"
    by blast
  have "length (st_heap rev0_registered) \<le> copy"
    using fresh by (simp add: segy_objects_def)
  then have "read_segy (mutate [(copy, ListObj [])] (st_heap st')) ?stored = Some rev0_segy"
    by (intro iso) simp
  then show ?thesis using rev0_stored g ne rc by blast
qed

end
